theory Spec2Isabelle
  imports Complex_Main
begin

section \<open>BOSS ensemble: data model\<close>

text \<open>
  Embedding of \<^verbatim>\<open>sktime/contrib/dictionary_based/boss_ensemble.py\<close>.
  Python floats (accuracies, the threshold, bag distances) are read as real numbers, Python
  ints as \<open>int\<close>, list positions as \<open>nat\<close>. Class labels are the integers that
  \<^verbatim>\<open>BOSSIndividual.predict\<close> writes into its \<^verbatim>\<open>np.int_\<close> array. The SFA transform
  and \<^verbatim>\<open>boss_distance\<close> live outside this file and are parameters of the functions
  that call them; \<open>'b\<close> is the type of a bag.
\<close>

datatype error = IndexError | ZeroDivisionError | ValueError | OverflowError

type_synonym label = int

text \<open>The fields of \<^verbatim>\<open>BOSSIndividual\<close> (the transform object apart).\<close>

record 'b boss_individual =
  window_size :: real
  word_length :: int
  alphabet_size :: int
  norm :: bool
  transformed_data :: "'b list"
  class_vals :: "label list"
  accuracy :: real

text \<open>The constructor parameters of \<^verbatim>\<open>BOSSEnsemble\<close>.\<close>

record config =
  randomised_ensemble :: bool
  ensemble_size :: int
  threshold :: real
  max_ensemble_size :: int
  word_lengths :: "int list"
  alphabet_size_cfg :: int
  min_window :: int
  norm_options :: "bool list"

text \<open>The defaults of \<^verbatim>\<open>BOSSEnsemble.__init__\<close>.\<close>

definition default_config :: config where
  "default_config =
     \<lparr>randomised_ensemble = False, ensemble_size = 100, threshold = 0.92,
      max_ensemble_size = 250, word_lengths = [16, 14, 12, 10, 8],
      alphabet_size_cfg = 4, min_window = 10, norm_options = [True, False]\<rparr>"

text \<open>\<^verbatim>\<open>sys.float_info.max\<close>, the largest finite double.\<close>

definition float_max :: real where
  "float_max = (2 ^ 53 - 1) * 2 ^ 971"

section \<open>Retention\<close>

text \<open>\<^verbatim>\<open>include_in_ensemble(acc, max_acc, min_max_acc, size)\<close>\<close>

definition include_in_ensemble :: "config \<Rightarrow> real \<Rightarrow> real \<Rightarrow> real \<Rightarrow> int \<Rightarrow> bool" where
  "include_in_ensemble cfg acc max_acc min_max_acc sz =
     (if acc \<ge> max_acc * threshold cfg then
        (if sz \<ge> max_ensemble_size cfg then acc > min_max_acc else True)
      else False)"

text \<open>
  \<^verbatim>\<open>worst_of_best\<close>: the loop over \<^verbatim>\<open>enumerate(self.classifiers)\<close> with the pair
  \<^verbatim>\<open>(min_acc, min_acc_idx)\<close> as its state, started at \<^verbatim>\<open>(-1, 0)\<close>.
\<close>

fun worst_loop :: "(nat \<times> 'b boss_individual) list \<Rightarrow> real \<times> nat \<Rightarrow> real \<times> nat" where
  "worst_loop [] (min_acc, min_acc_idx) = (min_acc, min_acc_idx)"
| "worst_loop ((c, classifier) # rest) (min_acc, min_acc_idx) =
     (if accuracy classifier < min_acc
      then worst_loop rest (accuracy classifier, c)
      else worst_loop rest (min_acc, min_acc_idx))"

definition worst_of_best :: "'b boss_individual list \<Rightarrow> real \<times> nat" where
  "worst_of_best cs = worst_loop (enumerate 0 cs) (- 1, 0)"

text \<open>\<^verbatim>\<open>del xs[i]\<close> for \<open>i \<ge> 0\<close>: IndexError out of range.\<close>

definition del_at :: "nat \<Rightarrow> 'a list \<Rightarrow> error + 'a list" where
  "del_at i xs = (if i < length xs then Inr (take i xs @ drop (Suc i) xs) else Inl IndexError)"

text \<open>
  The eviction loop of \<^verbatim>\<open>fit\<close>:
  \<^verbatim>\<open>for c, classifier in enumerate(self.classifiers):
      if classifier.accuracy < max_acc * self.threshold:
          self.classifiers.remove(classifier)\<close>
  The list is mutated while it is iterated. Python's list iterator keeps a position \<open>i\<close>,
  yields \<open>xs[i]\<close> while \<open>i < len(xs)\<close> and then advances, whatever happened to the list in
  between. \<^verbatim>\<open>BOSSIndividual\<close> defines no \<^verbatim>\<open>__eq__\<close>, so \<^verbatim>\<open>remove\<close> compares by
  identity; every member object is appended once, so the object removed is the one at the
  iterator's position.
\<close>

function evict_scan :: "real \<Rightarrow> nat \<Rightarrow> 'b boss_individual list \<Rightarrow> 'b boss_individual list" where
  "evict_scan bound i cs =
     (if i < length cs then
        (if accuracy (cs ! i) < bound
         then evict_scan bound (Suc i) (take i cs @ drop (Suc i) cs)
         else evict_scan bound (Suc i) cs)
      else cs)"
  by pat_completeness auto
termination
  by (relation "measure (\<lambda>(bound, i, cs). length cs - i)") auto

declare evict_scan.simps [simp del]

text \<open>
  The running state of the grid search: \<open>members\<close> is \<^verbatim>\<open>self.classifiers\<close>, the other
  two are the local variables of \<^verbatim>\<open>fit\<close>.
\<close>

record 'b search_state =
  members :: "'b boss_individual list"
  max_acc :: real
  min_max_acc :: real

text \<open>
  \<^verbatim>\<open>clean\<close> and \<^verbatim>\<open>set_word_len\<close>: of the fields kept here only \<^verbatim>\<open>word_length\<close> changes
  (\<^verbatim>\<open>clean\<close> touches the transform object alone).
\<close>

definition clean :: "'b boss_individual \<Rightarrow> 'b boss_individual" where
  "clean self = self"

definition set_word_len :: "'b boss_individual \<Rightarrow> int \<Rightarrow> 'b boss_individual" where
  "set_word_len self word_len = self\<lparr>word_length := word_len\<rparr>"

text \<open>
  The body of \<^verbatim>\<open>if self.include_in_ensemble(...)\<close> in \<^verbatim>\<open>fit\<close>: the
  candidate of one grid cell is appended, the members under the new bound are scanned out when
  the best accuracy improved, and one member is deleted when the list is too long.
\<close>

definition retain ::
  "config \<Rightarrow> 'b search_state \<Rightarrow> real \<Rightarrow> 'b boss_individual \<Rightarrow> int \<Rightarrow> error + 'b search_state" where
  "retain cfg st best_acc_for_win_size best_classifier_for_win_size best_word_len =
     (if include_in_ensemble cfg best_acc_for_win_size (max_acc st) (min_max_acc st)
           (int (length (members st))) then
        (let b = (set_word_len (clean best_classifier_for_win_size) best_word_len)
                   \<lparr>accuracy := best_acc_for_win_size\<rparr>;
             cs1 = members st @ [b];
             mx = (if best_acc_for_win_size > max_acc st then best_acc_for_win_size else max_acc st);
             cs2 = (if best_acc_for_win_size > max_acc st
                    then evict_scan (best_acc_for_win_size * threshold cfg) 0 cs1 else cs1);
             (mm, min_acc_ind) = worst_of_best cs2
         in if int (length cs2) > max_ensemble_size cfg then
              (case del_at min_acc_ind cs2 of
                 Inl e \<Rightarrow> Inl e
               | Inr cs3 \<Rightarrow>
                   Inr \<lparr>members = cs3, max_acc = mx, min_max_acc = fst (worst_of_best cs3)\<rparr>)
            else Inr \<lparr>members = cs2, max_acc = mx, min_max_acc = mm\<rparr>)
      else Inr st)"

section \<open>BOSSIndividual\<close>

type_synonym series = "real list"

text \<open>
  The collaborators that are not part of this file, as the functions the code calls:
  \<^item> \<open>sfa_fit_transform window_size word_length alphabet_size norm X\<close>: the bags
    \<^verbatim>\<open>[s.to_dict() for s in SFA(...).fit_transform(X).iloc[:, 0]]\<close>;
  \<^item> \<open>sfa_shorten_bags self word_len\<close>: the bags of
    \<^verbatim>\<open>self.transform.shorten_bags(word_len)\<close>;
  \<^item> \<open>sfa_transform self X\<close>: the bags of \<^verbatim>\<open>self.transform.transform(X)\<close>;
  \<^item> \<open>boss_distance first second best_dist\<close>.
\<close>

record 'b collaborators =
  sfa_fit_transform :: "real \<Rightarrow> int \<Rightarrow> int \<Rightarrow> bool \<Rightarrow> series list \<Rightarrow> 'b list"
  sfa_shorten_bags :: "'b boss_individual \<Rightarrow> int \<Rightarrow> 'b list"
  sfa_transform :: "'b boss_individual \<Rightarrow> series list \<Rightarrow> 'b list"
  boss_distance :: "'b \<Rightarrow> 'b \<Rightarrow> real \<Rightarrow> real"

text \<open>\<^verbatim>\<open>BOSSIndividual.__init__\<close>\<close>

definition BOSSIndividual :: "real \<Rightarrow> int \<Rightarrow> int \<Rightarrow> bool \<Rightarrow> 'b boss_individual" where
  "BOSSIndividual window_size' word_length' alphabet_size' norm' =
     \<lparr>window_size = window_size', word_length = word_length', alphabet_size = alphabet_size',
      norm = norm', transformed_data = [], class_vals = [], accuracy = 0\<rparr>"

text \<open>\<^verbatim>\<open>BOSSIndividual.fit\<close>\<close>

definition fit_individual ::
  "'b collaborators \<Rightarrow> 'b boss_individual \<Rightarrow> series list \<Rightarrow> label list \<Rightarrow> 'b boss_individual" where
  "fit_individual E self X y =
     self\<lparr>transformed_data :=
            sfa_fit_transform E (window_size self) (word_length self) (alphabet_size self) (norm self) X,
          class_vals := y\<rparr>"

text \<open>\<^verbatim>\<open>BOSSIndividual.shorten_bags\<close>\<close>

definition shorten_bags :: "'b collaborators \<Rightarrow> 'b boss_individual \<Rightarrow> int \<Rightarrow> 'b boss_individual" where
  "shorten_bags E self word_len =
     (BOSSIndividual (window_size self) word_len (alphabet_size self) (norm self))
       \<lparr>transformed_data := sfa_shorten_bags E self word_len, class_vals := class_vals self\<rparr>"

text \<open>
  The inner loop of \<^verbatim>\<open>predict\<close> for one test bag, over
  \<^verbatim>\<open>enumerate(self.transformed_data)\<close>, with \<^verbatim>\<open>(bestDist, nn)\<close> as its state;
  \<^verbatim>\<open>self.class_vals[n]\<close> raises IndexError past the end of the labels.
\<close>

fun predict_loop ::
  "('b \<Rightarrow> 'b \<Rightarrow> real \<Rightarrow> real) \<Rightarrow> label list \<Rightarrow> 'b \<Rightarrow> (nat \<times> 'b) list \<Rightarrow> real \<Rightarrow> label
   \<Rightarrow> error + label" where
  "predict_loop d cv test_bag [] bestDist nn = Inr nn"
| "predict_loop d cv test_bag ((n, bag) # rest) bestDist nn =
     (let dist = d test_bag bag bestDist in
      if dist < bestDist then
        (if n < length cv then predict_loop d cv test_bag rest dist (cv ! n)
         else Inl IndexError)
      else predict_loop d cv test_bag rest bestDist nn)"

text \<open>
  \<^verbatim>\<open>X.shape\<close> of the two-dimensional array, given as the list of its rows (all
  of one length); an array without rows is taken to have no columns.
\<close>

definition shape :: "series list \<Rightarrow> nat \<times> nat" where
  "shape X = (length X, (case X of [] \<Rightarrow> 0 | row # _ \<Rightarrow> length row))"

text \<open>
  \<^verbatim>\<open>classes[i] = nn\<close> on the array \<^verbatim>\<open>classes = np.zeros(num_insts, dtype=np.int_)\<close>:
  IndexError when \<open>i\<close> is past the end of the array, OverflowError when the label does not
  fit the array's 64-bit signed element (\<^verbatim>\<open>np.int_\<close> is the C long).
\<close>

definition fits_int64 :: "int \<Rightarrow> bool" where
  "fits_int64 n \<longleftrightarrow> - (2 ^ 63) \<le> n \<and> n < 2 ^ 63"

definition setitem_int64 :: "label list \<Rightarrow> nat \<Rightarrow> label \<Rightarrow> error + label list" where
  "setitem_int64 classes i nn =
     (if i < length classes then
        (if fits_int64 nn then Inr (classes[i := nn]) else Inl OverflowError)
      else Inl IndexError)"

text \<open>
  The outer loop of \<^verbatim>\<open>predict\<close> over \<^verbatim>\<open>enumerate(test_bags)\<close>, with the array
  \<^verbatim>\<open>classes\<close> as its state.
\<close>

fun predict_bags ::
  "('b \<Rightarrow> 'b \<Rightarrow> real \<Rightarrow> real) \<Rightarrow> 'b boss_individual \<Rightarrow> (nat \<times> 'b) list \<Rightarrow> label list
   \<Rightarrow> error + label list" where
  "predict_bags d self [] classes = Inr classes"
| "predict_bags d self ((i, test_bag) # rest) classes =
     (case predict_loop d (class_vals self) test_bag (enumerate 0 (transformed_data self))
             float_max (- 1) of
        Inl e \<Rightarrow> Inl e
      | Inr nn \<Rightarrow>
          (case setitem_int64 classes i nn of
             Inl e \<Rightarrow> Inl e
           | Inr classes' \<Rightarrow> predict_bags d self rest classes'))"

text \<open>
  \<^verbatim>\<open>BOSSIndividual.predict\<close>: \<^verbatim>\<open>num_insts = X.shape[0]\<close>, the array of zeros, the test
  bags of the transform, and the loop.
\<close>

definition predict :: "'b collaborators \<Rightarrow> 'b boss_individual \<Rightarrow> series list \<Rightarrow> error + label list" where
  "predict E self X =
     (let num_insts = fst (shape X);
          classes = replicate num_insts 0;
          test_bags = sfa_transform E self X
      in predict_bags (boss_distance E) self (enumerate 0 test_bags) classes)"

text \<open>The loop of \<^verbatim>\<open>train_predict\<close>: as above, skipping position \<^verbatim>\<open>train_num\<close>.\<close>

fun train_predict_loop ::
  "('b \<Rightarrow> 'b \<Rightarrow> real \<Rightarrow> real) \<Rightarrow> label list \<Rightarrow> 'b \<Rightarrow> nat \<Rightarrow> (nat \<times> 'b) list \<Rightarrow> real \<Rightarrow> label
   \<Rightarrow> error + label" where
  "train_predict_loop d cv test_bag train_num [] best_dist nn = Inr nn"
| "train_predict_loop d cv test_bag train_num ((n, bag) # rest) best_dist nn =
     (if n = train_num then train_predict_loop d cv test_bag train_num rest best_dist nn
      else
        (let dist = d test_bag bag best_dist in
         if dist < best_dist then
           (if n < length cv then train_predict_loop d cv test_bag train_num rest dist (cv ! n)
            else Inl IndexError)
         else train_predict_loop d cv test_bag train_num rest best_dist nn))"

definition train_predict :: "'b collaborators \<Rightarrow> 'b boss_individual \<Rightarrow> nat \<Rightarrow> error + label" where
  "train_predict E self train_num =
     (if train_num < length (transformed_data self) then
        train_predict_loop (boss_distance E) (class_vals self) (transformed_data self ! train_num)
          train_num (enumerate 0 (transformed_data self)) float_max (- 1)
      else Inl IndexError)"

text \<open>
  Modelled from the spec: the contract of BagDistance (\<^verbatim>\<open>boss_distance\<close> is imported from
  \<^verbatim>\<open>sktime.distances.dictionary_distances\<close>, which is not among the sources). The spec
  calls it a bounded, non-negative dissimilarity that takes a best-so-far cutoff and returns
  a value at or above the cutoff as soon as that is provable. \<open>td\<close> is the distance without
  early exit; bounded is read as: below \<^verbatim>\<open>sys.float_info.max\<close>, the cutoff
  \<^verbatim>\<open>predict\<close> starts from.
\<close>

definition distance_contract :: "('b \<Rightarrow> 'b \<Rightarrow> real \<Rightarrow> real) \<Rightarrow> ('b \<Rightarrow> 'b \<Rightarrow> real) \<Rightarrow> bool" where
  "distance_contract d td \<longleftrightarrow>
     (\<forall>a b cutoff. 0 \<le> td a b \<and> td a b < float_max
        \<and> (td a b < cutoff \<longrightarrow> d a b cutoff = td a b)
        \<and> (cutoff \<le> td a b \<longrightarrow> cutoff \<le> d a b cutoff))"

text \<open>
  The spec's choice of neighbour: position \<open>k\<close> holds a bag at minimum distance from the
  test bag, and every earlier position is strictly farther.
\<close>

definition nearest_first :: "('b \<Rightarrow> 'b \<Rightarrow> real) \<Rightarrow> 'b \<Rightarrow> 'b list \<Rightarrow> nat \<Rightarrow> bool" where
  "nearest_first td test_bag bags k \<longleftrightarrow>
     k < length bags
     \<and> (\<forall>j \<in> set [0..<length bags]. td test_bag (bags ! k) \<le> td test_bag (bags ! j))
     \<and> (\<forall>j \<in> set [0..<k]. td test_bag (bags ! k) < td test_bag (bags ! j))"

section \<open>BOSSEnsemble.fit\<close>

text \<open>\<^verbatim>\<open>int(x)\<close> of a float: truncation toward zero.\<close>

definition py_int :: "real \<Rightarrow> int" where
  "py_int x = (if 0 \<le> x then \<lfloor>x\<rfloor> else \<lceil>x\<rceil>)"

text \<open>
  The window-length step:
  \<^verbatim>\<open>max_window_searches = self.series_length / 4
  win_inc = int((self.series_length - self.min_window) / max_window_searches)
  if win_inc < 1: win_inc = 1\<close>
  Dividing by the float \<open>0.0\<close> raises ZeroDivisionError.
\<close>

definition window_increment :: "config \<Rightarrow> nat \<Rightarrow> error + int" where
  "window_increment cfg series_length =
     (let max_window_searches = real series_length / 4 in
      if max_window_searches = 0 then Inl ZeroDivisionError
      else
        (let win_inc = py_int (real_of_int (int series_length - min_window cfg) / max_window_searches)
         in Inr (if win_inc < 1 then 1 else win_inc)))"

text \<open>
  \<^verbatim>\<open>range(start, stop, step)\<close> for a step of at least 1: CPython computes its length as
  \<open>(stop - start - 1) // step + 1\<close> when \<open>start < stop\<close>, and element \<open>k\<close> as
  \<open>start + k * step\<close>.
\<close>

definition py_range :: "int \<Rightarrow> int \<Rightarrow> int \<Rightarrow> int list" where
  "py_range start stop step =
     (if start < stop
      then map (\<lambda>k. start + int k * step) [0..<nat ((stop - start - 1) div step + 1)]
      else [])"

text \<open>The window lengths of the grid search: \<^verbatim>\<open>range(self.min_window, self.series_length + 1, win_inc)\<close>\<close>

definition window_grid :: "config \<Rightarrow> nat \<Rightarrow> int \<Rightarrow> int list" where
  "window_grid cfg series_length win_inc = py_range (min_window cfg) (int series_length + 1) win_inc"

text \<open>
  The leave-one-out loop \<^verbatim>\<open>for g in range(num_insts)\<close>, counting \<^verbatim>\<open>correct\<close>, and
  \<^verbatim>\<open>accuracy = correct / num_insts\<close>.
\<close>

fun count_correct ::
  "'b collaborators \<Rightarrow> 'b boss_individual \<Rightarrow> label list \<Rightarrow> nat list \<Rightarrow> nat \<Rightarrow> error + nat" where
  "count_correct E boss y [] correct = Inr correct"
| "count_correct E boss y (g # gs) correct =
     (case train_predict E boss g of
        Inl e \<Rightarrow> Inl e
      | Inr c \<Rightarrow>
          (if g < length y
           then count_correct E boss y gs (if c = y ! g then correct + 1 else correct)
           else Inl IndexError))"

definition loo_accuracy ::
  "'b collaborators \<Rightarrow> 'b boss_individual \<Rightarrow> label list \<Rightarrow> nat \<Rightarrow> error + real" where
  "loo_accuracy E boss y num_insts =
     (case count_correct E boss y [0..<num_insts] 0 of
        Inl e \<Rightarrow> Inl e
      | Inr correct \<Rightarrow>
          (if num_insts = 0 then Inl ZeroDivisionError
           else Inr (real correct / real num_insts)))"

text \<open>
  The loop \<^verbatim>\<open>for n, word_len in enumerate(self.word_lengths)\<close> of one grid cell. Its state
  is the current \<^verbatim>\<open>boss\<close> and the triple \<^verbatim>\<open>(best_classifier_for_win_size,
  best_acc_for_win_size, best_word_len)\<close>.
\<close>

fun word_len_loop ::
  "'b collaborators \<Rightarrow> label list \<Rightarrow> nat \<Rightarrow> (nat \<times> int) list \<Rightarrow> 'b boss_individual
   \<Rightarrow> 'b boss_individual \<times> real \<times> int \<Rightarrow> error + ('b boss_individual \<times> real \<times> int)" where
  "word_len_loop E y num_insts [] boss best = Inr best"
| "word_len_loop E y num_insts ((n, word_len) # rest) boss (best_classifier, best_acc, best_word_len) =
     (let boss' = (if n > 0 then shorten_bags E boss word_len else boss) in
      case loo_accuracy E boss' y num_insts of
        Inl e \<Rightarrow> Inl e
      | Inr acc \<Rightarrow>
          word_len_loop E y num_insts rest boss'
            (if acc \<ge> best_acc then (boss', acc, word_len)
             else (best_classifier, best_acc, best_word_len)))"

text \<open>
  One grid cell: the member at \<^verbatim>\<open>self.word_lengths[0]\<close> is built and fitted (IndexError
  on an empty list of word lengths), the word lengths are searched, and the winner goes
  through the retention step.
\<close>

definition grid_cell ::
  "config \<Rightarrow> 'b collaborators \<Rightarrow> series list \<Rightarrow> label list \<Rightarrow> nat \<Rightarrow> bool \<Rightarrow> int
   \<Rightarrow> 'b search_state \<Rightarrow> error + 'b search_state" where
  "grid_cell cfg E X y num_insts normalise win_size st =
     (case word_lengths cfg of
        [] \<Rightarrow> Inl IndexError
      | wl0 # _ \<Rightarrow>
          (let boss = fit_individual E
                        (BOSSIndividual (real_of_int win_size) wl0 (alphabet_size_cfg cfg) normalise) X y
           in case word_len_loop E y num_insts (enumerate 0 (word_lengths cfg)) boss (boss, - 1, wl0) of
                Inl e \<Rightarrow> Inl e
              | Inr (best_classifier, best_acc, best_word_len) \<Rightarrow>
                  retain cfg st best_acc best_classifier best_word_len))"

text \<open>The two nested loops of the grid search.\<close>

fun window_loop ::
  "config \<Rightarrow> 'b collaborators \<Rightarrow> series list \<Rightarrow> label list \<Rightarrow> nat \<Rightarrow> bool \<Rightarrow> int list
   \<Rightarrow> 'b search_state \<Rightarrow> error + 'b search_state" where
  "window_loop cfg E X y num_insts normalise [] st = Inr st"
| "window_loop cfg E X y num_insts normalise (win_size # rest) st =
     (case grid_cell cfg E X y num_insts normalise win_size st of
        Inl e \<Rightarrow> Inl e
      | Inr st' \<Rightarrow> window_loop cfg E X y num_insts normalise rest st')"

fun norm_loop ::
  "config \<Rightarrow> 'b collaborators \<Rightarrow> series list \<Rightarrow> label list \<Rightarrow> nat \<Rightarrow> int list \<Rightarrow> bool list
   \<Rightarrow> 'b search_state \<Rightarrow> error + 'b search_state" where
  "norm_loop cfg E X y num_insts windows [] st = Inr st"
| "norm_loop cfg E X y num_insts windows (normalise # rest) st =
     (case window_loop cfg E X y num_insts normalise windows st of
        Inl e \<Rightarrow> Inl e
      | Inr st' \<Rightarrow> norm_loop cfg E X y num_insts windows rest st')"

text \<open>
  The grid-search branch of \<^verbatim>\<open>fit\<close>, from \<^verbatim>\<open>max_acc = -1\<close> on; \<open>cs\<close> is
  \<^verbatim>\<open>self.classifiers\<close> at that point (empty on a new estimator).
\<close>

definition grid_search ::
  "config \<Rightarrow> 'b collaborators \<Rightarrow> series list \<Rightarrow> label list \<Rightarrow> nat \<Rightarrow> nat \<Rightarrow> int
   \<Rightarrow> 'b boss_individual list \<Rightarrow> error + 'b boss_individual list" where
  "grid_search cfg E X y num_insts series_length win_inc cs =
     (case norm_loop cfg E X y num_insts (window_grid cfg series_length win_inc) (norm_options cfg)
             \<lparr>members = cs, max_acc = - 1, min_max_acc = - 1\<rparr> of
        Inl e \<Rightarrow> Inl e
      | Inr st \<Rightarrow> Inr (members st))"

text \<open>
  The values the \<^verbatim>\<open>random\<close> module hands out, by iteration of the randomised loop:
  \<open>word_draw k\<close> for \<^verbatim>\<open>random.randint(0, len(self.word_lengths) - 1)\<close>, \<open>window_draw k\<close>
  for \<^verbatim>\<open>random.randint(0, max_window_searches)\<close>, \<open>norm_draw k\<close> for
  \<^verbatim>\<open>random.random()\<close>.
\<close>

record draws =
  word_draw :: "nat \<Rightarrow> int"
  window_draw :: "nat \<Rightarrow> int"
  norm_draw :: "nat \<Rightarrow> real"

text \<open>\<^verbatim>\<open>xs[i]\<close> on a Python list: a negative index counts from the end.\<close>

definition py_get :: "'a list \<Rightarrow> int \<Rightarrow> error + 'a" where
  "py_get xs i =
     (if 0 \<le> i \<and> i < int (length xs) then Inr (xs ! nat i)
      else if i < 0 \<and> - int (length xs) \<le> i then Inr (xs ! nat (int (length xs) + i))
      else Inl IndexError)"

text \<open>
  One iteration of the randomised loop, up to \<^verbatim>\<open>boss.clean()\<close>. \<^verbatim>\<open>random.randint\<close>
  raises ValueError on the empty range \<open>(0, -1)\<close>, and on the float bound
  \<^verbatim>\<open>max_window_searches\<close> when that is not a whole number (Python up to 3.11).
  \<^verbatim>\<open>word_len\<close> is an element of \<^verbatim>\<open>self.word_lengths\<close> and is then used as an index
  into the same list.
\<close>

definition randomised_member ::
  "config \<Rightarrow> 'b collaborators \<Rightarrow> draws \<Rightarrow> series list \<Rightarrow> label list \<Rightarrow> nat \<Rightarrow> int \<Rightarrow> nat
   \<Rightarrow> error + 'b boss_individual" where
  "randomised_member cfg E R X y series_length win_inc k =
     (let max_window_searches = real series_length / 4 in
      if word_lengths cfg = [] then Inl ValueError
      else
        (case py_get (word_lengths cfg) (word_draw R k) of
           Inl e \<Rightarrow> Inl e
         | Inr word_len \<Rightarrow>
             (if series_length mod 4 \<noteq> 0 then Inl ValueError
              else
                (let win_size0 = real_of_int (min_window cfg + win_inc * window_draw R k);
                     win_size = (if win_size0 > max_window_searches then max_window_searches
                                 else win_size0);
                     normalise = (norm_draw R k > 0.5)
                 in case py_get (word_lengths cfg) word_len of
                      Inl e \<Rightarrow> Inl e
                    | Inr wl \<Rightarrow>
                        Inr (clean (fit_individual E
                               (BOSSIndividual win_size wl (alphabet_size_cfg cfg) normalise) X y))))))"

text \<open>\<^verbatim>\<open>while len(self.classifiers) < self.ensemble_size\<close>; \<open>k\<close> counts the iterations.\<close>

function randomised_loop ::
  "config \<Rightarrow> 'b collaborators \<Rightarrow> draws \<Rightarrow> series list \<Rightarrow> label list \<Rightarrow> nat \<Rightarrow> int \<Rightarrow> nat
   \<Rightarrow> 'b boss_individual list \<Rightarrow> error + 'b boss_individual list" where
  "randomised_loop cfg E R X y series_length win_inc k cs =
     (if int (length cs) < ensemble_size cfg then
        (case randomised_member cfg E R X y series_length win_inc k of
           Inl e \<Rightarrow> Inl e
         | Inr boss \<Rightarrow> randomised_loop cfg E R X y series_length win_inc (Suc k) (cs @ [boss]))
      else Inr cs)"
  by pat_completeness auto
termination
  by (relation "measure (\<lambda>(cfg, E, R, X, y, series_length, win_inc, k, cs).
                           nat (ensemble_size cfg - int (length cs)))") auto

declare randomised_loop.simps [simp del]

text \<open>
  The attributes \<^verbatim>\<open>fit\<close> leaves on the estimator (\<open>classes\<close> is \<^verbatim>\<open>classes_\<close>, and
  \<^verbatim>\<open>class_dictionary\<close> is kept as the list of its items).
\<close>

record 'b ensemble =
  classifiers :: "'b boss_individual list"
  num_classes :: nat
  classes :: "label list"
  class_dictionary :: "(label \<times> nat) list"
  num_classifiers :: nat
  series_length :: nat

text \<open>
  \<^verbatim>\<open>BOSSEnsemble.fit\<close> on a two-dimensional array \<open>X\<close>; \<open>cs\<close> is \<^verbatim>\<open>self.classifiers\<close>
  before the call. \<^verbatim>\<open>np.unique(y)\<close> and \<^verbatim>\<open>class_distribution\<close> give the sorted distinct
  labels.
\<close>

definition fit ::
  "config \<Rightarrow> 'b collaborators \<Rightarrow> draws \<Rightarrow> 'b boss_individual list \<Rightarrow> series list \<Rightarrow> label list
   \<Rightarrow> error + 'b ensemble" where
  "fit cfg E R cs X y =
     (let (num_insts, series_length') = shape X;
          labels = sort (remdups y)
      in case window_increment cfg series_length' of
           Inl e \<Rightarrow> Inl e
         | Inr win_inc \<Rightarrow>
             (case (if randomised_ensemble cfg
                    then randomised_loop cfg E R X y series_length' win_inc 0 cs
                    else grid_search cfg E X y num_insts series_length' win_inc cs) of
                Inl e \<Rightarrow> Inl e
              | Inr cs' \<Rightarrow>
                  Inr \<lparr>classifiers = cs', num_classes = length labels, classes = labels,
                       class_dictionary = zip labels [0..<length labels],
                       num_classifiers = length cs', series_length = series_length'\<rparr>))"

section \<open>Concrete inputs\<close>

text \<open>
  A small training set for evaluating the definitions: four series of length 4 in two
  classes. Bags are natural numbers; the distance between two bags is their difference,
  capped at 100, and the early exit returns \<^verbatim>\<open>sys.float_info.max\<close> once the distance is above
  the cutoff (as \<^verbatim>\<open>boss_distance\<close> does). The transform yields the bags \<open>[0, 1, 5, 20]\<close>
  when normalising and \<open>[0, 1, 10, 11]\<close> when not, for every window and word length.
\<close>

definition td0 :: "nat \<Rightarrow> nat \<Rightarrow> real" where
  "td0 a b = min \<bar>real a - real b\<bar> 100"

definition d0 :: "nat \<Rightarrow> nat \<Rightarrow> real \<Rightarrow> real" where
  "d0 a b cutoff = (if td0 a b > cutoff then float_max else td0 a b)"

definition E0 :: "nat collaborators" where
  "E0 = \<lparr>sfa_fit_transform = (\<lambda>w wl a n X. if n then [0, 1, 5, 20] else [0, 1, 10, 11]),
         sfa_shorten_bags = (\<lambda>self wl. if norm self then [0, 1, 5, 20] else [0, 1, 10, 11]),
         sfa_transform = (\<lambda>self X. map length X),
         boss_distance = d0\<rparr>"

definition R0 :: draws where
  "R0 = \<lparr>word_draw = (\<lambda>k. 0), window_draw = (\<lambda>k. 0), norm_draw = (\<lambda>k. 0)\<rparr>"

definition X0 :: "series list" where
  "X0 = [[0, 0, 0, 0], [0, 0, 0, 0], [0, 0, 0, 0], [0, 0, 0, 0]]"

definition y0 :: "label list" where
  "y0 = [0, 0, 1, 1]"

definition cfg0 :: config where
  "cfg0 = default_config\<lparr>word_lengths := [2], min_window := 3\<rparr>"

definition boss0 :: "nat boss_individual" where
  "boss0 = fit_individual E0 (BOSSIndividual 3 2 4 True) X0 y0"

text \<open>
  The member built for one grid cell of this training set, the leave-one-out accuracy it
  reaches (3 of 4 with the normalised bags, 4 of 4 with the others), and the form in which
  \<^verbatim>\<open>fit\<close> appends it.
\<close>

definition member0 :: "bool \<Rightarrow> int \<Rightarrow> nat boss_individual" where
  "member0 normalise win_size =
     fit_individual E0 (BOSSIndividual (real_of_int win_size) 2 4 normalise) X0 y0"

definition acc0 :: "bool \<Rightarrow> real" where
  "acc0 normalise = (if normalise then 3 / 4 else 1)"

definition cand0 :: "bool \<Rightarrow> int \<Rightarrow> nat boss_individual" where
  "cand0 normalise win_size =
     (set_word_len (clean (member0 normalise win_size)) 2)\<lparr>accuracy := acc0 normalise\<rparr>"

text \<open>Variants of the configuration, and labels of a single class.\<close>

definition cfg1 :: config where
  "cfg1 = cfg0\<lparr>max_ensemble_size := 1\<rparr>"

definition cfg2 :: config where
  "cfg2 = cfg0\<lparr>threshold := 0.7, max_ensemble_size := 2, norm_options := [False, True]\<rparr>"

definition cfg3 :: config where
  "cfg3 = default_config\<lparr>randomised_ensemble := True, ensemble_size := 3, max_ensemble_size := 2,
                           word_lengths := [2, 4, 2, 4, 2]\<rparr>"

definition y1 :: "label list" where
  "y1 = [0, 0, 0, 0]"

definition X40 :: "series list" where
  "X40 = [replicate 40 0, replicate 40 0]"

text \<open>
  A member whose last training label is \<open>2^63\<close>, a test batch of one series of length 20,
  and a member fitted on a single instance.
\<close>

definition y_big :: "label list" where
  "y_big = [0, 0, 1, 9223372036854775808]"

definition boss_big :: "nat boss_individual" where
  "boss_big = fit_individual E0 (BOSSIndividual 3 2 4 True) X0 y_big"

definition X20 :: "series list" where
  "X20 = [replicate 20 0]"

definition boss_single :: "nat boss_individual" where
  "boss_single = (BOSSIndividual 3 2 4 True)\<lparr>transformed_data := [7], class_vals := [1]\<rparr>"

section \<open>The retention rule as the specification words it\<close>

text \<open>
  The best and the lowest accuracy among the retained members, \<open>-1\<close> when there are none,
  and the rule: retain iff the candidate is within the threshold of the best and either
  there is room or the candidate beats the lowest.
\<close>

definition best_retained :: "'b boss_individual list \<Rightarrow> real" where
  "best_retained cs = (if cs = [] then - 1 else Max (set (map accuracy cs)))"

definition lowest_retained :: "'b boss_individual list \<Rightarrow> real" where
  "lowest_retained cs = (if cs = [] then - 1 else Min (set (map accuracy cs)))"

definition retained_by_spec :: "config \<Rightarrow> 'b boss_individual list \<Rightarrow> real \<Rightarrow> bool" where
  "retained_by_spec cfg cs acc \<longleftrightarrow>
     acc \<ge> best_retained cs * threshold cfg
     \<and> (int (length cs) < max_ensemble_size cfg \<or> acc > lowest_retained cs)"

section \<open>Properties of \<open>worst_of_best\<close>\<close>

lemma worst_loop_nonneg:
  "\<forall>p \<in> set ps. 0 \<le> accuracy (snd p) \<Longrightarrow> worst_loop ps (- 1, k) = (- 1, k)"
proof (induction ps)
  case Nil
  show ?case by simp
next
  case (Cons p ps)
  obtain c m where p: "p = (c, m)" by (cases p)
  from Cons.prems have "0 \<le> accuracy m" by (simp add: p)
  then have "\<not> accuracy m < - 1" by simp
  moreover from Cons have "worst_loop ps (- 1, k) = (- 1, k)" by simp
  ultimately show ?case by (simp add: p)
qed

lemma snd_enumerate_in: "p \<in> set (enumerate n xs) \<Longrightarrow> snd p \<in> set xs"
  by (cases p) (auto simp: enumerate_eq_zip dest: set_zip_rightD)

text \<open>
  C4. When every cached accuracy in the list is at least 0, the comparison
  \<^verbatim>\<open>classifier.accuracy < min_acc\<close> against the initial \<open>-1\<close> is never true, and
  \<^verbatim>\<open>worst_of_best\<close> returns \<open>(-1, 0)\<close> whatever the accuracies are.
\<close>

theorem worst_of_best_sentinel:
  assumes "\<forall>m \<in> set cs. 0 \<le> accuracy m"
  shows "worst_of_best cs = (- 1, 0)"
  unfolding worst_of_best_def
  by (rule worst_loop_nonneg) (use assms snd_enumerate_in in blast)

section \<open>Nearest neighbour\<close>

lemma contract_less:
  "distance_contract d td \<Longrightarrow> d a b c < c \<longleftrightarrow> td a b < c"
  unfolding distance_contract_def by (metis not_less)

lemma contract_eq:
  "distance_contract d td \<Longrightarrow> td a b < c \<Longrightarrow> d a b c = td a b"
  unfolding distance_contract_def by blast

lemma predict_loop_char:
  assumes c: "distance_contract d td"
    and idx: "\<forall>p \<in> set ps. fst p < length cv"
  shows "\<exists>r. predict_loop d cv tb ps best nn = Inr r \<and>
           ((\<forall>p \<in> set ps. best \<le> td tb (snd p)) \<and> r = nn
            \<or> (\<exists>k < length ps. r = cv ! fst (ps ! k) \<and> td tb (snd (ps ! k)) < best
                 \<and> (\<forall>j < length ps. td tb (snd (ps ! k)) \<le> td tb (snd (ps ! j)))
                 \<and> (\<forall>j < k. td tb (snd (ps ! k)) < td tb (snd (ps ! j)))))"
  using idx
proof (induction ps arbitrary: best nn)
  case Nil
  show ?case by simp
next
  case (Cons p ps)
  obtain n b where p: "p = (n, b)" by (cases p)
  from Cons.prems have n: "n < length cv" and idx': "\<forall>p \<in> set ps. fst p < length cv"
    by (simp_all add: p)
  show ?case
  proof (cases "td tb b < best")
    case True
    then have step: "predict_loop d cv tb (p # ps) best nn = predict_loop d cv tb ps (td tb b) (cv ! n)"
      using contract_eq [OF c True] n by (simp add: p)
    from Cons.IH [OF idx', of "td tb b" "cv ! n"]
    obtain r where r: "predict_loop d cv tb ps (td tb b) (cv ! n) = Inr r"
      and alt: "(\<forall>p \<in> set ps. td tb b \<le> td tb (snd p)) \<and> r = cv ! n
            \<or> (\<exists>k < length ps. r = cv ! fst (ps ! k) \<and> td tb (snd (ps ! k)) < td tb b
                 \<and> (\<forall>j < length ps. td tb (snd (ps ! k)) \<le> td tb (snd (ps ! j)))
                 \<and> (\<forall>j < k. td tb (snd (ps ! k)) < td tb (snd (ps ! j))))"
      by blast
    from alt show ?thesis
    proof
      assume a: "(\<forall>p \<in> set ps. td tb b \<le> td tb (snd p)) \<and> r = cv ! n"
      have "\<forall>j < length (p # ps). td tb (snd ((p # ps) ! 0)) \<le> td tb (snd ((p # ps) ! j))"
      proof (intro allI impI)
        fix j assume "j < length (p # ps)"
        then show "td tb (snd ((p # ps) ! 0)) \<le> td tb (snd ((p # ps) ! j))"
          using a by (cases j) (simp_all add: p)
      qed
      then have "\<exists>k < length (p # ps). r = cv ! fst ((p # ps) ! k) \<and> td tb (snd ((p # ps) ! k)) < best
                 \<and> (\<forall>j < length (p # ps). td tb (snd ((p # ps) ! k)) \<le> td tb (snd ((p # ps) ! j)))
                 \<and> (\<forall>j < k. td tb (snd ((p # ps) ! k)) < td tb (snd ((p # ps) ! j)))"
        using a True by (intro exI [of _ 0]) (simp add: p)
      then show ?thesis using step r by simp
    next
      assume "\<exists>k < length ps. r = cv ! fst (ps ! k) \<and> td tb (snd (ps ! k)) < td tb b
                 \<and> (\<forall>j < length ps. td tb (snd (ps ! k)) \<le> td tb (snd (ps ! j)))
                 \<and> (\<forall>j < k. td tb (snd (ps ! k)) < td tb (snd (ps ! j)))"
      then obtain k where k: "k < length ps" "r = cv ! fst (ps ! k)" "td tb (snd (ps ! k)) < td tb b"
        "\<forall>j < length ps. td tb (snd (ps ! k)) \<le> td tb (snd (ps ! j))"
        "\<forall>j < k. td tb (snd (ps ! k)) < td tb (snd (ps ! j))" by blast
      have le: "\<forall>j < length (p # ps). td tb (snd ((p # ps) ! Suc k)) \<le> td tb (snd ((p # ps) ! j))"
      proof (intro allI impI)
        fix j assume "j < length (p # ps)"
        then show "td tb (snd ((p # ps) ! Suc k)) \<le> td tb (snd ((p # ps) ! j))"
          using k by (cases j) (simp_all add: p)
      qed
      have lt: "\<forall>j < Suc k. td tb (snd ((p # ps) ! Suc k)) < td tb (snd ((p # ps) ! j))"
      proof (intro allI impI)
        fix j assume "j < Suc k"
        then show "td tb (snd ((p # ps) ! Suc k)) < td tb (snd ((p # ps) ! j))"
          using k by (cases j) (simp_all add: p)
      qed
      have "\<exists>k < length (p # ps). r = cv ! fst ((p # ps) ! k) \<and> td tb (snd ((p # ps) ! k)) < best
                 \<and> (\<forall>j < length (p # ps). td tb (snd ((p # ps) ! k)) \<le> td tb (snd ((p # ps) ! j)))
                 \<and> (\<forall>j < k. td tb (snd ((p # ps) ! k)) < td tb (snd ((p # ps) ! j)))"
        using k(1,2,3) True le lt by (intro exI [of _ "Suc k"]) simp
      then show ?thesis using step r by simp
    qed
  next
    case False
    then have "\<not> d tb b best < best" using contract_less [OF c] by blast
    then have step: "predict_loop d cv tb (p # ps) best nn = predict_loop d cv tb ps best nn"
      by (simp add: p)
    from Cons.IH [OF idx', of best nn]
    obtain r where r: "predict_loop d cv tb ps best nn = Inr r"
      and alt: "(\<forall>p \<in> set ps. best \<le> td tb (snd p)) \<and> r = nn
            \<or> (\<exists>k < length ps. r = cv ! fst (ps ! k) \<and> td tb (snd (ps ! k)) < best
                 \<and> (\<forall>j < length ps. td tb (snd (ps ! k)) \<le> td tb (snd (ps ! j)))
                 \<and> (\<forall>j < k. td tb (snd (ps ! k)) < td tb (snd (ps ! j))))"
      by blast
    from alt show ?thesis
    proof
      assume "(\<forall>p \<in> set ps. best \<le> td tb (snd p)) \<and> r = nn"
      then show ?thesis using step r False by (simp add: p)
    next
      assume "\<exists>k < length ps. r = cv ! fst (ps ! k) \<and> td tb (snd (ps ! k)) < best
                 \<and> (\<forall>j < length ps. td tb (snd (ps ! k)) \<le> td tb (snd (ps ! j)))
                 \<and> (\<forall>j < k. td tb (snd (ps ! k)) < td tb (snd (ps ! j)))"
      then obtain k where k: "k < length ps" "r = cv ! fst (ps ! k)" "td tb (snd (ps ! k)) < best"
        "\<forall>j < length ps. td tb (snd (ps ! k)) \<le> td tb (snd (ps ! j))"
        "\<forall>j < k. td tb (snd (ps ! k)) < td tb (snd (ps ! j))" by blast
      have le: "\<forall>j < length (p # ps). td tb (snd ((p # ps) ! Suc k)) \<le> td tb (snd ((p # ps) ! j))"
      proof (intro allI impI)
        fix j assume "j < length (p # ps)"
        then show "td tb (snd ((p # ps) ! Suc k)) \<le> td tb (snd ((p # ps) ! j))"
          using k False by (cases j) (simp_all add: p)
      qed
      have lt: "\<forall>j < Suc k. td tb (snd ((p # ps) ! Suc k)) < td tb (snd ((p # ps) ! j))"
      proof (intro allI impI)
        fix j assume "j < Suc k"
        then show "td tb (snd ((p # ps) ! Suc k)) < td tb (snd ((p # ps) ! j))"
          using k False by (cases j) (simp_all add: p)
      qed
      have "\<exists>k < length (p # ps). r = cv ! fst ((p # ps) ! k) \<and> td tb (snd ((p # ps) ! k)) < best
                 \<and> (\<forall>j < length (p # ps). td tb (snd ((p # ps) ! k)) \<le> td tb (snd ((p # ps) ! j)))
                 \<and> (\<forall>j < k. td tb (snd ((p # ps) ! k)) < td tb (snd ((p # ps) ! j)))"
        using k(1,2,3) le lt by (intro exI [of _ "Suc k"]) simp
      then show ?thesis using step r by simp
    qed
  qed
qed

lemma enumerate_fst_less: "p \<in> set (enumerate 0 xs) \<Longrightarrow> fst p < length xs"
  by (cases p) (auto simp: in_set_enumerate_eq)

lemma predict_loop_nearest:
  assumes c: "distance_contract d td"
    and ne: "bags \<noteq> []"
    and len: "length cv = length bags"
  shows "\<exists>k. predict_loop d cv tb (enumerate 0 bags) float_max (- 1) = Inr (cv ! k)
             \<and> nearest_first td tb bags k"
proof -
  let ?ps = "enumerate 0 bags"
  have idx: "\<forall>p \<in> set ?ps. fst p < length cv"
    using enumerate_fst_less len by metis
  have bounded: "\<And>b. td tb b < float_max"
    using c unfolding distance_contract_def by blast
  from ne obtain p0 where p0: "p0 \<in> set ?ps"
    by (cases bags) auto
  have no_first: "\<not> (\<forall>p \<in> set ?ps. float_max \<le> td tb (snd p))"
    using p0 bounded [of "snd p0"] by (auto simp: not_le)
  from predict_loop_char [OF c idx, where tb = tb and best = float_max and nn = "- 1"] no_first
  obtain r k where r: "predict_loop d cv tb ?ps float_max (- 1) = Inr r"
    and k: "k < length ?ps" "r = cv ! fst (?ps ! k)"
      "\<forall>j < length ?ps. td tb (snd (?ps ! k)) \<le> td tb (snd (?ps ! j))"
      "\<forall>j < k. td tb (snd (?ps ! k)) < td tb (snd (?ps ! j))"
    by blast
  from k(1) have kl: "k < length bags" by simp
  have nth: "\<And>j. j < length bags \<Longrightarrow> ?ps ! j = (j, bags ! j)"
    by (simp add: nth_enumerate_eq)
  have "nearest_first td tb bags k"
    unfolding nearest_first_def using kl k(3,4) nth by auto
  moreover have "r = cv ! k" using k(2) nth [OF kl] by simp
  ultimately show ?thesis using r by blast
qed

lemma nearest_first_unique:
  assumes "nearest_first td tb bags k" and "nearest_first td tb bags k'"
  shows "k = k'"
proof (rule ccontr)
  assume "k \<noteq> k'"
  then consider "k < k'" | "k' < k" by linarith
  then show False
  proof cases
    case 1
    with assms have "td tb (bags ! k') < td tb (bags ! k)" "td tb (bags ! k) \<le> td tb (bags ! k')"
      unfolding nearest_first_def by auto
    then show False by simp
  next
    case 2
    with assms have "td tb (bags ! k) < td tb (bags ! k')" "td tb (bags ! k') \<le> td tb (bags ! k)"
      unfolding nearest_first_def by auto
    then show False by simp
  qed
qed

lemma exact_distance_contract:
  assumes "distance_contract d td"
  shows "distance_contract (\<lambda>a b cutoff. td a b) td"
  using assms unfolding distance_contract_def by auto

lemma predict_loop_cutoff_irrelevant:
  assumes c: "distance_contract d td"
    and ne: "bags \<noteq> []"
    and len: "length cv = length bags"
  shows "predict_loop d cv tb (enumerate 0 bags) float_max (- 1)
         = predict_loop (\<lambda>a b cutoff. td a b) cv tb (enumerate 0 bags) float_max (- 1)"
proof -
  from predict_loop_nearest [OF c ne len, of tb]
  obtain k where k: "predict_loop d cv tb (enumerate 0 bags) float_max (- 1) = Inr (cv ! k)"
    "nearest_first td tb bags k" by blast
  from predict_loop_nearest [OF exact_distance_contract [OF c] ne len, of tb]
  obtain k' where k': "predict_loop (\<lambda>a b cutoff. td a b) cv tb (enumerate 0 bags) float_max (- 1) = Inr (cv ! k')"
    "nearest_first td tb bags k'" by blast
  from nearest_first_unique [OF k(2) k'(2)] k(1) k'(1) show ?thesis by simp
qed

lemma predict_bags_nearest:
  assumes c: "distance_contract d td"
    and ne: "transformed_data self \<noteq> []"
    and len: "length (class_vals self) = length (transformed_data self)"
    and fit: "\<forall>c \<in> set (class_vals self). fits_int64 c"
    and room: "i0 + length tbs \<le> length arr"
  shows "\<exists>arr'. predict_bags d self (enumerate i0 tbs) arr = Inr arr'
           \<and> length arr' = length arr
           \<and> (\<forall>j < i0. arr' ! j = arr ! j)
           \<and> (\<forall>j < length tbs. \<exists>k. nearest_first td (tbs ! j) (transformed_data self) k
                   \<and> arr' ! (i0 + j) = class_vals self ! k)"
  using room
proof (induction tbs arbitrary: i0 arr)
  case Nil
  show ?case by simp
next
  case (Cons tb tbs)
  from predict_loop_nearest [OF c ne len, of tb]
  obtain k where k: "predict_loop d (class_vals self) tb (enumerate 0 (transformed_data self)) float_max (- 1)
                      = Inr (class_vals self ! k)"
    "nearest_first td tb (transformed_data self) k" by blast
  from k(2) len have "class_vals self ! k \<in> set (class_vals self)"
    by (simp add: nearest_first_def)
  with fit have ok: "fits_int64 (class_vals self ! k)" by blast
  from Cons.prems have i0: "i0 < length arr" by simp
  let ?arr1 = "arr[i0 := class_vals self ! k]"
  have store: "setitem_int64 arr i0 (class_vals self ! k) = Inr ?arr1"
    using ok i0 by (simp add: setitem_int64_def)
  have room': "Suc i0 + length tbs \<le> length ?arr1" using Cons.prems by simp
  from Cons.IH [OF room'] obtain arr' where cl:
    "predict_bags d self (enumerate (Suc i0) tbs) ?arr1 = Inr arr'"
    "length arr' = length ?arr1"
    "\<forall>j < Suc i0. arr' ! j = ?arr1 ! j"
    "\<forall>j < length tbs. \<exists>k. nearest_first td (tbs ! j) (transformed_data self) k
                   \<and> arr' ! (Suc i0 + j) = class_vals self ! k" by blast
  have res: "predict_bags d self (enumerate i0 (tb # tbs)) arr = Inr arr'"
    using k(1) store cl(1) by simp
  have keep: "\<forall>j < i0. arr' ! j = arr ! j"
    using cl(3) by simp
  have here: "arr' ! i0 = class_vals self ! k"
    using cl(3) i0 by simp
  have all: "\<forall>j < length (tb # tbs). \<exists>k'. nearest_first td ((tb # tbs) ! j) (transformed_data self) k'
                   \<and> arr' ! (i0 + j) = class_vals self ! k'"
  proof (intro allI impI)
    fix j assume j: "j < length (tb # tbs)"
    show "\<exists>k'. nearest_first td ((tb # tbs) ! j) (transformed_data self) k'
                   \<and> arr' ! (i0 + j) = class_vals self ! k'"
    proof (cases j)
      case 0
      then show ?thesis using k(2) here by auto
    next
      case (Suc m)
      with j have "m < length tbs" by simp
      with cl(4) Suc show ?thesis by auto
    qed
  qed
  from res cl(2) keep all show ?case by simp
qed

lemma predict_bags_cutoff_irrelevant:
  assumes c: "distance_contract d td"
    and ne: "transformed_data self \<noteq> []"
    and len: "length (class_vals self) = length (transformed_data self)"
  shows "predict_bags d self ps arr = predict_bags (\<lambda>a b cutoff. td a b) self ps arr"
proof (induction ps arbitrary: arr)
  case Nil
  show ?case by simp
next
  case (Cons p ps)
  obtain i tb where p: "p = (i, tb)" by (cases p)
  show ?case
    by (simp add: p predict_loop_cutoff_irrelevant [OF c ne len] Cons.IH cong: sum.case_cong)
qed

text \<open>
  C5. For a fitted member (labels and bags in parallel) with a non-empty training set whose
  labels fit the 64-bit result array, and a batch for which the transform yields one bag
  per test series, \<^verbatim>\<open>predict\<close> returns one label per test series: the label of the
  training bag at minimum distance from the encoded test bag, the first such bag in
  training order; and the result is the one obtained with a distance that never exits
  early. The distance is any function meeting the BagDistance contract.
\<close>

theorem predict_nearest_neighbour:
  assumes "distance_contract (boss_distance E) td"
    and "transformed_data self \<noteq> []"
    and "length (class_vals self) = length (transformed_data self)"
    and "\<forall>c \<in> set (class_vals self). fits_int64 c"
    and "length (sfa_transform E self X) = length X"
  shows "\<exists>classes. predict E self X = Inr classes
           \<and> length classes = length X
           \<and> (\<forall>i \<in> set [0..<length X].
                 \<exists>k. nearest_first td (sfa_transform E self X ! i) (transformed_data self) k
                    \<and> classes ! i = class_vals self ! k)
           \<and> predict (E\<lparr>boss_distance := (\<lambda>a b cutoff. td a b)\<rparr>) self X = Inr classes"
proof -
  let ?tbs = "sfa_transform E self X"
  let ?zeros = "replicate (fst (shape X)) (0 :: label)"
  have n: "fst (shape X) = length X" by (simp add: shape_def)
  have room: "0 + length ?tbs \<le> length ?zeros" using assms(5) n by simp
  from predict_bags_nearest [OF assms(1) assms(2) assms(3) assms(4) room]
  obtain classes where cl:
    "predict_bags (boss_distance E) self (enumerate 0 ?tbs) ?zeros = Inr classes"
    "length classes = length ?zeros"
    "\<forall>j < length ?tbs. \<exists>k. nearest_first td (?tbs ! j) (transformed_data self) k
                   \<and> classes ! (0 + j) = class_vals self ! k" by blast
  have p1: "predict E self X = Inr classes"
    using cl(1) by (simp add: predict_def Let_def)
  have p2: "predict (E\<lparr>boss_distance := (\<lambda>a b cutoff. td a b)\<rparr>) self X = Inr classes"
    using predict_bags_cutoff_irrelevant [OF assms(1) assms(2) assms(3), of "enumerate 0 ?tbs" ?zeros]
      cl(1)
    by (simp add: predict_def Let_def)
  have "\<forall>i \<in> set [0..<length X].
          \<exists>k. nearest_first td (?tbs ! i) (transformed_data self) k
             \<and> classes ! i = class_vals self ! k"
    using cl(3) assms(5) by simp
  with p1 p2 cl(2) n show ?thesis by simp
qed

lemma train_predict_loop_keeps:
  assumes idx: "\<forall>p \<in> set ps. fst p < length cv"
    and nn: "\<exists>n < length cv. n \<noteq> t \<and> nn = cv ! n"
  shows "\<exists>n < length cv. n \<noteq> t \<and> train_predict_loop d cv tb t ps best nn = Inr (cv ! n)"
  using idx nn
proof (induction ps arbitrary: best nn)
  case Nil
  then show ?case by auto
next
  case (Cons p ps)
  obtain n b where p: "p = (n, b)" by (cases p)
  from Cons.prems(1) have n: "n < length cv" and idx': "\<forall>p \<in> set ps. fst p < length cv"
    by (simp_all add: p)
  show ?case
  proof (cases "n \<noteq> t \<and> d tb b best < best")
    case True
    then have "train_predict_loop d cv tb t (p # ps) best nn
               = train_predict_loop d cv tb t ps (d tb b best) (cv ! n)"
      using n by (simp add: p Let_def)
    moreover have "\<exists>m < length cv. m \<noteq> t \<and> cv ! n = cv ! m" using n True by blast
    ultimately show ?thesis using Cons.IH [OF idx', of "cv ! n" "d tb b best"] by simp
  next
    case False
    then have "train_predict_loop d cv tb t (p # ps) best nn = train_predict_loop d cv tb t ps best nn"
      by (auto simp: p Let_def)
    then show ?thesis using Cons.IH [OF idx' Cons.prems(2), of best] by simp
  qed
qed

lemma train_predict_loop_finds:
  assumes c: "distance_contract d td"
    and idx: "\<forall>p \<in> set ps. fst p < length cv"
    and other: "\<exists>p \<in> set ps. fst p \<noteq> t"
  shows "\<exists>n < length cv. n \<noteq> t \<and> train_predict_loop d cv tb t ps float_max nn = Inr (cv ! n)"
  using idx other
proof (induction ps)
  case Nil
  then show ?case by simp
next
  case (Cons p ps)
  obtain n b where p: "p = (n, b)" by (cases p)
  from Cons.prems(1) have n: "n < length cv" and idx': "\<forall>p \<in> set ps. fst p < length cv"
    by (simp_all add: p)
  show ?case
  proof (cases "n = t")
    case True
    with Cons.prems(2) have "\<exists>p \<in> set ps. fst p \<noteq> t" by (simp add: p)
    from Cons.IH [OF idx' this] True show ?thesis by (simp add: p)
  next
    case False
    have lt: "td tb b < float_max" using c unfolding distance_contract_def by blast
    then have "d tb b float_max = td tb b" using contract_eq [OF c] by blast
    with lt False n have "train_predict_loop d cv tb t (p # ps) float_max nn
               = train_predict_loop d cv tb t ps (td tb b) (cv ! n)"
      by (simp add: p)
    moreover have "\<exists>m < length cv. m \<noteq> t \<and> cv ! n = cv ! m" using n False by blast
    ultimately show ?thesis
      using train_predict_loop_keeps [OF idx', of t "cv ! n" d tb "td tb b"] by simp
  qed
qed

lemma train_predict_other:
  assumes c: "distance_contract (boss_distance E) td"
    and len: "length (class_vals self) = length (transformed_data self)"
    and t: "train_num < length (transformed_data self)"
    and other: "\<exists>n < length (transformed_data self). n \<noteq> train_num"
  shows "\<exists>n < length (class_vals self). n \<noteq> train_num
           \<and> train_predict E self train_num = Inr (class_vals self ! n)"
proof -
  let ?ps = "enumerate 0 (transformed_data self)"
  have idx: "\<forall>p \<in> set ?ps. fst p < length (class_vals self)"
    using enumerate_fst_less len by metis
  from other obtain n where n: "n < length (transformed_data self)" "n \<noteq> train_num" by blast
  then have "(n, transformed_data self ! n) \<in> set ?ps"
    by (simp add: in_set_enumerate_eq)
  with n(2) have ex: "\<exists>p \<in> set ?ps. fst p \<noteq> train_num" by force
  from train_predict_loop_finds [OF c idx ex] t show ?thesis
    by (simp add: train_predict_def)
qed

text \<open>
  C6. When the member is fitted and the training set holds at least one instance other
  than the excluded one, \<^verbatim>\<open>train_predict\<close> returns the class label of a training
  instance at a position other than the excluded one, not the initial \<open>-1\<close> of
  \<^verbatim>\<open>nn\<close>. (With no other instance the loop body never runs and \<open>-1\<close> is returned,
  also when the training set is not empty.) The distance is any function meeting the
  BagDistance contract.
\<close>

theorem train_predict_returns_training_label:
  assumes "distance_contract (boss_distance E) td"
    and "length (class_vals self) = length (transformed_data self)"
    and "train_num < length (transformed_data self)"
    and "\<exists>n \<in> set [0..<length (transformed_data self)]. n \<noteq> train_num"
  shows "\<exists>n \<in> set [0..<length (class_vals self)].
           n \<noteq> train_num \<and> train_predict E self train_num = Inr (class_vals self ! n)"
proof -
  from assms(4) have "\<exists>n < length (transformed_data self). n \<noteq> train_num" by auto
  from train_predict_other [OF assms(1,2,3) this] show ?thesis by auto
qed

section \<open>The window-length grid\<close>

lemma py_int_clip: "(if py_int x < 1 then 1 else py_int x) = max 1 \<lfloor>x\<rfloor>"
proof (cases "0 \<le> x")
  case True
  then show ?thesis by (simp add: py_int_def max_def)
next
  case False
  then have "\<lceil>x\<rceil> \<le> 0" "\<lfloor>x\<rfloor> \<le> 0" by (simp_all add: ceiling_le_iff floor_le_iff)
  with False show ?thesis by (simp add: py_int_def max_def)
qed

lemma window_increment_value:
  assumes "0 < L"
  shows "window_increment cfg L
         = Inr (max 1 \<lfloor>real_of_int (int L - min_window cfg) / (real L / 4)\<rfloor>)"
proof -
  have ne: "real L / 4 \<noteq> 0" using assms by simp
  show ?thesis
    unfolding window_increment_def Let_def using ne by (simp only: if_False py_int_clip)
qed

lemma le_div_int:
  fixes k m s :: int
  assumes "0 < s"
  shows "k \<le> m div s \<longleftrightarrow> k * s \<le> m"
proof
  assume "k \<le> m div s"
  then have "k * s \<le> (m div s) * s" using assms by (simp add: mult_right_mono)
  also have "\<dots> \<le> m"
  proof -
    have "m = (m div s) * s + m mod s" by simp
    moreover have "0 \<le> m mod s" using assms by simp
    ultimately show ?thesis by linarith
  qed
  finally show "k * s \<le> m" .
next
  assume "k * s \<le> m"
  then have "(k * s) div s \<le> m div s" using assms by (rule zdiv_mono1)
  then show "k \<le> m div s" using assms by simp
qed

lemma py_range_index:
  fixes a b s :: int
  assumes s: "1 \<le> s" and ab: "a < b"
  shows "k < nat ((b - a - 1) div s + 1) \<longleftrightarrow> a + int k * s < b"
proof -
  have nonneg: "0 \<le> (b - a - 1) div s" using s ab by (simp add: pos_imp_zdiv_nonneg_iff)
  have "k < nat ((b - a - 1) div s + 1) \<longleftrightarrow> int k \<le> (b - a - 1) div s"
    using nonneg by auto
  also have "\<dots> \<longleftrightarrow> int k * s \<le> b - a - 1"
    using s by (intro le_div_int) simp
  also have "\<dots> \<longleftrightarrow> a + int k * s < b" by auto
  finally show ?thesis .
qed

lemma py_range_set:
  assumes s: "1 \<le> s"
  shows "set (py_range a b s) = {w. \<exists>k::nat. w = a + int k * s \<and> w < b}"
proof (cases "a < b")
  case True
  have "set (py_range a b s) = (\<lambda>k. a + int k * s) ` {k. k < nat ((b - a - 1) div s + 1)}"
    using True by (auto simp: py_range_def)
  also have "\<dots> = (\<lambda>k. a + int k * s) ` {k. a + int k * s < b}"
    using py_range_index [OF s True] by simp
  also have "\<dots> = {w. \<exists>k::nat. w = a + int k * s \<and> w < b}" by auto
  finally show ?thesis .
next
  case False
  have "\<not> a + int k * s < b" for k
  proof -
    have "0 \<le> int k * s" using s by simp
    with False show ?thesis by linarith
  qed
  with False show ?thesis by (auto simp: py_range_def)
qed

lemma py_range_increasing:
  assumes s: "1 \<le> s"
  shows "sorted_wrt (<) (py_range a b s)"
proof -
  have "sorted_wrt (<) (map (\<lambda>k. a + int k * s) [0..<n])" for n
    using s by (auto simp: sorted_wrt_map sorted_wrt_iff_nth_less intro!: mult_strict_right_mono)
  then show ?thesis by (simp add: py_range_def)
qed

lemma grid_contains_length:
  assumes s: "1 \<le> s"
  shows "int L \<in> set (window_grid cfg L s) \<longleftrightarrow> min_window cfg \<le> int L \<and> s dvd (int L - min_window cfg)"
proof -
  have "int L \<in> set (window_grid cfg L s) \<longleftrightarrow> (\<exists>k::nat. int L = min_window cfg + int k * s)"
    by (auto simp: window_grid_def py_range_set [OF s])
  also have "\<dots> \<longleftrightarrow> min_window cfg \<le> int L \<and> s dvd (int L - min_window cfg)"
  proof
    assume "\<exists>k::nat. int L = min_window cfg + int k * s"
    then obtain k :: nat where k: "int L = min_window cfg + int k * s" by blast
    have "0 \<le> int k * s" using s by simp
    with k show "min_window cfg \<le> int L \<and> s dvd (int L - min_window cfg)" by simp
  next
    assume a: "min_window cfg \<le> int L \<and> s dvd (int L - min_window cfg)"
    then obtain q where q: "int L - min_window cfg = s * q" by (auto simp: dvd_def)
    have "0 \<le> q"
    proof (rule ccontr)
      assume "\<not> 0 \<le> q"
      then have "q \<le> - 1" by simp
      then have "s * q \<le> s * (- 1)" using s by (intro mult_left_mono) simp_all
      with q a s show False by simp
    qed
    then have "int L = min_window cfg + int (nat q) * s" using q by (simp add: mult.commute)
    then show "\<exists>k::nat. int L = min_window cfg + int k * s" by blast
  qed
  finally show ?thesis .
qed

text \<open>
  C7. For a positive series length the step is
  \<open>max 1 \<lfloor>(series_length - min_window) / (series_length / 4)\<rfloor>\<close>; the window lengths
  enumerated are, in increasing order, the values \<open>min_window + k * step\<close> (\<open>k = 0, 1, ...\<close>)
  that do not exceed the series length; and the series length itself is among them exactly
  when it is at least \<open>min_window\<close> and the step divides \<open>series_length - min_window\<close>.
\<close>

theorem window_grid_candidates:
  assumes "0 < L"
  shows "\<exists>win_inc. window_increment cfg L = Inr win_inc
           \<and> win_inc = max 1 \<lfloor>real_of_int (int L - min_window cfg) / (real L / 4)\<rfloor>
           \<and> set (window_grid cfg L win_inc)
               = {w. \<exists>k::nat. w = min_window cfg + int k * win_inc \<and> w \<le> int L}
           \<and> sorted_wrt (<) (window_grid cfg L win_inc)
           \<and> (int L \<in> set (window_grid cfg L win_inc)
                \<longleftrightarrow> min_window cfg \<le> int L \<and> win_inc dvd (int L - min_window cfg))"
proof -
  let ?s = "max 1 \<lfloor>real_of_int (int L - min_window cfg) / (real L / 4)\<rfloor>"
  have s: "1 \<le> ?s" by simp
  have "set (window_grid cfg L ?s) = {w. \<exists>k::nat. w = min_window cfg + int k * ?s \<and> w \<le> int L}"
    unfolding window_grid_def py_range_set [OF s] by auto
  moreover have "sorted_wrt (<) (window_grid cfg L ?s)"
    unfolding window_grid_def by (rule py_range_increasing [OF s])
  ultimately show ?thesis
    using window_increment_value [OF assms, of cfg] grid_contains_length [OF s, of L cfg] by blast
qed

section \<open>Size of the ensemble after the grid search\<close>

lemma evict_scan_length: "length (evict_scan bound i cs) \<le> length cs"
proof (induction bound i cs rule: evict_scan.induct)
  case (1 bound i cs)
  show ?case
  proof (cases "i < length cs")
    case False
    then show ?thesis by (simp add: evict_scan.simps [of bound i cs])
  next
    case True
    show ?thesis
    proof (cases "accuracy (cs ! i) < bound")
      case hit: True
      have "length (evict_scan bound (Suc i) (take i cs @ drop (Suc i) cs))
            \<le> length (take i cs @ drop (Suc i) cs)"
        using "1.IH"(1) [OF True hit] .
      also have "\<dots> \<le> length cs" by simp
      finally show ?thesis using True hit by (simp add: evict_scan.simps [of bound i cs])
    next
      case miss: False
      from "1.IH"(2) [OF True miss] True miss show ?thesis
        by (simp add: evict_scan.simps [of bound i cs])
    qed
  qed
qed

lemma worst_loop_index:
  "snd (worst_loop ps (m, i)) = i \<or> snd (worst_loop ps (m, i)) \<in> fst ` set ps"
proof (induction ps arbitrary: m i)
  case Nil
  show ?case by simp
next
  case (Cons p ps)
  obtain c classifier where p: "p = (c, classifier)" by (cases p)
  show ?case
  proof (cases "accuracy classifier < m")
    case True
    with Cons.IH [of "accuracy classifier" c] show ?thesis by (auto simp: p)
  next
    case False
    with Cons.IH [of m i] show ?thesis by (auto simp: p)
  qed
qed

lemma worst_of_best_index:
  assumes "cs \<noteq> []"
  shows "snd (worst_of_best cs) < length cs"
proof -
  have "snd (worst_of_best cs) = 0 \<or> snd (worst_of_best cs) \<in> fst ` set (enumerate 0 cs)"
    unfolding worst_of_best_def by (rule worst_loop_index)
  then show ?thesis
  proof
    assume "snd (worst_of_best cs) = 0"
    with assms show ?thesis by simp
  next
    assume "snd (worst_of_best cs) \<in> fst ` set (enumerate 0 cs)"
    then show ?thesis by (auto simp: in_set_enumerate_eq)
  qed
qed

lemma retain_size:
  assumes r: "retain cfg st acc b wl = Inr st'"
    and le: "int (length (members st)) \<le> max_ensemble_size cfg"
  shows "int (length (members st')) \<le> max_ensemble_size cfg"
proof (cases "include_in_ensemble cfg acc (max_acc st) (min_max_acc st) (int (length (members st)))")
  case False
  with r le show ?thesis by (simp add: retain_def)
next
  case True
  define cs1 where "cs1 = members st @ [(set_word_len (clean b) wl)\<lparr>accuracy := acc\<rparr>]"
  define cs2 where "cs2 = (if acc > max_acc st then evict_scan (acc * threshold cfg) 0 cs1 else cs1)"
  have l2: "length cs2 \<le> Suc (length (members st))"
    using evict_scan_length [of "acc * threshold cfg" 0 cs1] by (simp add: cs2_def cs1_def)
  show ?thesis
  proof (cases "int (length cs2) > max_ensemble_size cfg")
    case big: True
    from r True big obtain cs3 where d: "del_at (snd (worst_of_best cs2)) cs2 = Inr cs3"
      and st': "members st' = cs3"
      by (auto simp: retain_def Let_def cs1_def cs2_def split: prod.splits sum.splits if_splits)
    from d have "length cs3 = length cs2 - 1"
      by (auto simp: del_at_def split: if_splits)
    with l2 le st' show ?thesis by simp
  next
    case small: False
    with r True have "members st' = cs2"
      by (auto simp: retain_def Let_def cs1_def cs2_def split: prod.splits sum.splits if_splits)
    with small show ?thesis by simp
  qed
qed

lemma retain_returns:
  assumes le: "int (length (members st)) \<le> max_ensemble_size cfg"
  shows "\<exists>st'. retain cfg st acc b wl = Inr st'"
proof (cases "include_in_ensemble cfg acc (max_acc st) (min_max_acc st) (int (length (members st)))")
  case False
  then show ?thesis by (simp add: retain_def)
next
  case True
  define cs1 where "cs1 = members st @ [(set_word_len (clean b) wl)\<lparr>accuracy := acc\<rparr>]"
  define cs2 where "cs2 = (if acc > max_acc st then evict_scan (acc * threshold cfg) 0 cs1 else cs1)"
  show ?thesis
  proof (cases "int (length cs2) > max_ensemble_size cfg")
    case big: True
    with le have "cs2 \<noteq> []" by auto
    then have "snd (worst_of_best cs2) < length cs2" by (rule worst_of_best_index)
    then obtain cs3 where "del_at (snd (worst_of_best cs2)) cs2 = Inr cs3"
      by (auto simp: del_at_def)
    with True big show ?thesis
      by (auto simp: retain_def Let_def cs1_def cs2_def split: prod.splits)
  next
    case small: False
    with True show ?thesis
      by (auto simp: retain_def Let_def cs1_def cs2_def split: prod.splits)
  qed
qed

lemma grid_cell_size:
  assumes "grid_cell cfg E X y num_insts normalise win_size st = Inr st'"
    and "int (length (members st)) \<le> max_ensemble_size cfg"
  shows "int (length (members st')) \<le> max_ensemble_size cfg"
  using assms
  by (auto simp: grid_cell_def Let_def split: list.splits sum.splits prod.splits
           dest: retain_size)

lemma window_loop_size:
  assumes "window_loop cfg E X y num_insts normalise ws st = Inr st'"
    and "int (length (members st)) \<le> max_ensemble_size cfg"
  shows "int (length (members st')) \<le> max_ensemble_size cfg"
  using assms
proof (induction ws arbitrary: st)
  case Nil
  then show ?case by simp
next
  case (Cons w ws)
  from Cons.prems(1) obtain st1 where
    c: "grid_cell cfg E X y num_insts normalise w st = Inr st1"
    and l: "window_loop cfg E X y num_insts normalise ws st1 = Inr st'"
    by (auto split: sum.splits)
  from Cons.IH [OF l grid_cell_size [OF c Cons.prems(2)]] show ?case .
qed

lemma norm_loop_size:
  assumes "norm_loop cfg E X y num_insts windows ns st = Inr st'"
    and "int (length (members st)) \<le> max_ensemble_size cfg"
  shows "int (length (members st')) \<le> max_ensemble_size cfg"
  using assms
proof (induction ns arbitrary: st)
  case Nil
  then show ?case by simp
next
  case (Cons n ns)
  from Cons.prems(1) obtain st1 where
    c: "window_loop cfg E X y num_insts n windows st = Inr st1"
    and l: "norm_loop cfg E X y num_insts windows ns st1 = Inr st'"
    by (auto split: sum.splits)
  from Cons.IH [OF l window_loop_size [OF c Cons.prems(2)]] show ?case .
qed

lemma grid_search_size:
  assumes "grid_search cfg E X y num_insts L win_inc cs = Inr cs'"
    and "int (length cs) \<le> max_ensemble_size cfg"
  shows "int (length cs') \<le> max_ensemble_size cfg"
proof -
  from assms(1) obtain st' where
    n: "norm_loop cfg E X y num_insts (window_grid cfg L win_inc) (norm_options cfg)
          \<lparr>members = cs, max_acc = - 1, min_max_acc = - 1\<rparr> = Inr st'"
    and cs': "cs' = members st'"
    by (auto simp: grid_search_def split: sum.splits)
  from norm_loop_size [OF n] assms(2) cs' show ?thesis by simp
qed

lemma fit_classifiers:
  assumes "fit cfg E R cs X y = Inr ens"
  shows "\<exists>win_inc. window_increment cfg (snd (shape X)) = Inr win_inc
           \<and> (if randomised_ensemble cfg
               then randomised_loop cfg E R X y (snd (shape X)) win_inc 0 cs
               else grid_search cfg E X y (fst (shape X)) (snd (shape X)) win_inc cs)
              = Inr (classifiers ens)
           \<and> num_classifiers ens = length (classifiers ens)"
  using assms
  by (auto simp: fit_def Let_def split: prod.splits sum.splits if_splits)

lemma randomised_loop_count:
  assumes "randomised_loop cfg E R X y L win_inc k cs = Inr cs'"
  shows "int (length cs') = max (int (length cs)) (ensemble_size cfg)"
  using assms
proof (induction cfg E R X y L win_inc k cs rule: randomised_loop.induct)
  case (1 cfg E R X y L win_inc k cs)
  show ?case
  proof (cases "int (length cs) < ensemble_size cfg")
    case False
    with "1.prems" show ?thesis by (simp add: randomised_loop.simps [of cfg E R X y L win_inc k cs])
  next
    case True
    with "1.prems" obtain boss where
      b: "randomised_member cfg E R X y L win_inc k = Inr boss"
      and l: "randomised_loop cfg E R X y L win_inc (Suc k) (cs @ [boss]) = Inr cs'"
      by (auto simp: randomised_loop.simps [of cfg E R X y L win_inc k cs] split: sum.splits)
    from "1.IH" [OF True b l] True show ?thesis by simp
  qed
qed

text \<open>
  C8. In grid-search mode, when \<^verbatim>\<open>self.classifiers\<close> holds at most
  \<^verbatim>\<open>max_ensemble_size\<close> members before the call (on a new estimator: when
  \<^verbatim>\<open>max_ensemble_size\<close> is not negative), the ensemble that \<^verbatim>\<open>fit\<close> returns holds at
  most \<^verbatim>\<open>max_ensemble_size\<close> members. The randomised mode has no such bound: it returns
  with \<^verbatim>\<open>ensemble_size\<close> members (or the members it started with, if those were more).
\<close>

theorem fit_size_bound:
  assumes "fit cfg E R cs X y = Inr ens"
  shows "(if randomised_ensemble cfg
          then int (length (classifiers ens)) = max (int (length cs)) (ensemble_size cfg)
          else int (length cs) \<le> max_ensemble_size cfg
               \<longrightarrow> int (length (classifiers ens)) \<le> max_ensemble_size cfg)
         \<and> num_classifiers ens = length (classifiers ens)"
proof -
  from fit_classifiers [OF assms] obtain win_inc where
    r: "(if randomised_ensemble cfg
         then randomised_loop cfg E R X y (snd (shape X)) win_inc 0 cs
         else grid_search cfg E X y (fst (shape X)) (snd (shape X)) win_inc cs)
        = Inr (classifiers ens)"
    and n: "num_classifiers ens = length (classifiers ens)" by blast
  show ?thesis
  proof (cases "randomised_ensemble cfg")
    case True
    with r randomised_loop_count n show ?thesis by simp
  next
    case False
    with r grid_search_size n show ?thesis by auto
  qed
qed

section \<open>The grid search returns\<close>

lemma train_predict_loop_returns:
  assumes "\<forall>p \<in> set ps. fst p < length cv"
  shows "\<exists>r. train_predict_loop d cv tb t ps best nn = Inr r"
  using assms
proof (induction ps arbitrary: best nn)
  case Nil
  show ?case by simp
next
  case (Cons p ps)
  obtain n b where p: "p = (n, b)" by (cases p)
  from Cons.prems have n: "n < length cv" and idx: "\<forall>p \<in> set ps. fst p < length cv"
    by (simp_all add: p)
  show ?case using Cons.IH [OF idx] n by (simp add: p Let_def)
qed

lemma train_predict_returns:
  assumes "length (transformed_data boss) \<le> length (class_vals boss)"
    and "g < length (transformed_data boss)"
  shows "\<exists>c. train_predict E boss g = Inr c"
proof -
  have "\<forall>p \<in> set (enumerate 0 (transformed_data boss)). fst p < length (class_vals boss)"
    using enumerate_fst_less assms(1) by (metis less_le_trans)
  from train_predict_loop_returns [OF this] assms(2) show ?thesis
    by (simp add: train_predict_def)
qed

lemma count_correct_returns:
  assumes "length (transformed_data boss) \<le> length (class_vals boss)"
    and "\<forall>g \<in> set gs. g < length (transformed_data boss) \<and> g < length y"
  shows "\<exists>n. count_correct E boss y gs correct = Inr n"
  using assms(2)
proof (induction gs arbitrary: correct)
  case Nil
  show ?case by simp
next
  case (Cons g gs)
  from Cons.prems have g: "g < length (transformed_data boss)" "g < length y"
    and rest: "\<forall>g \<in> set gs. g < length (transformed_data boss) \<and> g < length y" by simp_all
  from train_predict_returns [OF assms(1) g(1)] obtain c where "train_predict E boss g = Inr c"
    by blast
  with g(2) Cons.IH [OF rest] show ?case by simp
qed

lemma loo_accuracy_returns:
  assumes "0 < n"
    and "length (transformed_data boss) = n" and "length (class_vals boss) = n"
    and "length y = n"
  shows "\<exists>acc. loo_accuracy E boss y n = Inr acc"
proof -
  have "\<forall>g \<in> set [0..<n]. g < length (transformed_data boss) \<and> g < length y"
    using assms by simp
  from count_correct_returns [OF _ this, of E 0] assms obtain c where
    "count_correct E boss y [0..<n] 0 = Inr c" by auto
  with assms(1) show ?thesis by (simp add: loo_accuracy_def)
qed

lemma word_len_loop_returns:
  assumes n: "0 < n" and y: "length y = n"
    and sh: "\<And>self wl. length (sfa_shorten_bags E self wl) = n"
    and boss: "length (transformed_data boss) = n" "length (class_vals boss) = n"
  shows "\<exists>r. word_len_loop E y n wls boss best = Inr r"
  using boss
proof (induction wls arbitrary: boss best)
  case Nil
  show ?case by (cases best) auto
next
  case (Cons p wls)
  obtain k word_len where p: "p = (k, word_len)" by (cases p)
  obtain bc ba bw where best: "best = (bc, ba, bw)" by (cases best) auto
  define boss' where "boss' = (if k > 0 then shorten_bags E boss word_len else boss)"
  have b': "length (transformed_data boss') = n" "length (class_vals boss') = n"
    using Cons.prems sh by (simp_all add: boss'_def shorten_bags_def BOSSIndividual_def)
  from loo_accuracy_returns [OF n b' y] obtain acc where
    acc: "loo_accuracy E boss' y n = Inr acc" by blast
  from Cons.IH [OF b'] obtain r where
    "word_len_loop E y n wls boss'
       (if acc \<ge> ba then (boss', acc, word_len) else (bc, ba, bw)) = Inr r" by blast
  with acc show ?case by (cases r) (simp add: p best boss'_def [symmetric] Let_def)
qed

lemma grid_cell_returns:
  assumes n: "0 < n" and y: "length y = n"
    and wl: "word_lengths cfg \<noteq> []"
    and ft: "\<And>w wl a nrm. length (sfa_fit_transform E w wl a nrm X) = n"
    and sh: "\<And>self wl. length (sfa_shorten_bags E self wl) = n"
    and le: "int (length (members st)) \<le> max_ensemble_size cfg"
  shows "\<exists>st'. grid_cell cfg E X y n normalise win_size st = Inr st'"
proof -
  from wl obtain wl0 rest where w: "word_lengths cfg = wl0 # rest" by (cases "word_lengths cfg") auto
  define boss where "boss = fit_individual E
      (BOSSIndividual (real_of_int win_size) wl0 (alphabet_size_cfg cfg) normalise :: 'a boss_individual) X y"
  have b: "length (transformed_data boss) = n" "length (class_vals boss) = n"
    using ft y by (simp_all add: boss_def fit_individual_def)
  from word_len_loop_returns [OF n y sh b] obtain bc ba bw where
    "word_len_loop E y n (enumerate 0 (word_lengths cfg)) boss (boss, - 1, wl0) = Inr (bc, ba, bw)"
    by (metis prod_cases3)
  moreover from retain_returns [OF le] obtain st' where "retain cfg st ba bc bw = Inr st'" by blast
  ultimately show ?thesis
    by (simp add: grid_cell_def w boss_def [symmetric] Let_def)
qed

lemma window_loop_returns:
  assumes n: "0 < n" and y: "length y = n"
    and wl: "word_lengths cfg \<noteq> []"
    and ft: "\<And>w wl a nrm. length (sfa_fit_transform E w wl a nrm X) = n"
    and sh: "\<And>self wl. length (sfa_shorten_bags E self wl) = n"
    and le: "int (length (members st)) \<le> max_ensemble_size cfg"
  shows "\<exists>st'. window_loop cfg E X y n normalise ws st = Inr st'"
  using le
proof (induction ws arbitrary: st)
  case Nil
  show ?case by simp
next
  case (Cons w ws)
  from grid_cell_returns [OF n y wl ft sh Cons.prems] obtain st1 where
    c: "grid_cell cfg E X y n normalise w st = Inr st1" by blast
  from Cons.IH [OF grid_cell_size [OF c Cons.prems]] c show ?case by simp
qed

lemma norm_loop_returns:
  assumes n: "0 < n" and y: "length y = n"
    and wl: "word_lengths cfg \<noteq> []"
    and ft: "\<And>w wl a nrm. length (sfa_fit_transform E w wl a nrm X) = n"
    and sh: "\<And>self wl. length (sfa_shorten_bags E self wl) = n"
    and le: "int (length (members st)) \<le> max_ensemble_size cfg"
  shows "\<exists>st'. norm_loop cfg E X y n windows ns st = Inr st'"
  using le
proof (induction ns arbitrary: st)
  case Nil
  show ?case by simp
next
  case (Cons nrm ns)
  from window_loop_returns [OF n y wl ft sh Cons.prems] obtain st1 where
    c: "window_loop cfg E X y n nrm windows st = Inr st1" by blast
  from Cons.IH [OF window_loop_size [OF c Cons.prems]] c show ?case by simp
qed

lemma grid_search_returns:
  assumes "0 < n" and "length y = n"
    and "word_lengths cfg \<noteq> []"
    and "\<And>w wl a nrm. length (sfa_fit_transform E w wl a nrm X) = n"
    and "\<And>self wl. length (sfa_shorten_bags E self wl) = n"
    and "int (length cs) \<le> max_ensemble_size cfg"
  shows "\<exists>cs'. grid_search cfg E X y n L win_inc cs = Inr cs'"
proof -
  have le: "int (length (members \<lparr>members = cs, max_acc = - 1, min_max_acc = - 1\<rparr>))
            \<le> max_ensemble_size cfg" using assms(6) by simp
  from norm_loop_returns [OF assms(1) assms(2) assms(3) assms(4) assms(5) le]
  obtain st' where
    "norm_loop cfg E X y n (window_grid cfg L win_inc) (norm_options cfg)
       \<lparr>members = cs, max_acc = - 1, min_max_acc = - 1\<rparr> = Inr st'" by blast
  then show ?thesis by (simp add: grid_search_def)
qed

text \<open>
  C10. \<^verbatim>\<open>fit\<close> makes no check on the number of distinct classes. In grid-search mode, for
  a training array with at least one row and one column, a non-empty list of word lengths,
  at most \<^verbatim>\<open>max_ensemble_size\<close> members before the call and a transform that yields one
  bag per training instance, \<^verbatim>\<open>fit\<close> returns normally for every label vector of matching
  length, however many distinct labels it holds; \<^verbatim>\<open>num_classes\<close> is their number.
\<close>

theorem fit_without_class_check:
  assumes "\<not> randomised_ensemble cfg"
    and "word_lengths cfg \<noteq> []"
    and "int (length cs) \<le> max_ensemble_size cfg"
    and "X \<noteq> []" and "hd X \<noteq> []"
    and "length y = length X"
    and "\<And>w wl a nrm. length (sfa_fit_transform E w wl a nrm X) = length X"
    and "\<And>self wl. length (sfa_shorten_bags E self wl) = length X"
  shows "\<exists>ens. fit cfg E R cs X y = Inr ens \<and> num_classes ens = card (set y)"
proof -
  from assms(4) obtain row rows where X: "X = row # rows" by (cases X) auto
  with assms(5) have L: "0 < length row" by simp
  have shp: "shape X = (length X, length row)" by (simp add: shape_def X)
  have n: "0 < length X" using assms(4) by simp
  from window_increment_value [OF L] obtain win_inc where
    w: "window_increment cfg (length row) = Inr win_inc" by blast
  from grid_search_returns [OF n assms(6) assms(2) assms(7) assms(8) assms(3)]
  obtain cs' where g: "grid_search cfg E X y (length X) (length row) win_inc cs = Inr cs'"
    by blast
  have "length (sort (remdups y)) = card (set y)"
    by (simp add: length_remdups_card_conv)
  then show ?thesis using assms(1) w g by (simp add: fit_def shp Let_def)
qed

section \<open>The randomised mode\<close>

lemma py_get_member:
  assumes "py_get xs i = Inr x"
  shows "x \<in> set xs"
proof (cases "0 \<le> i")
  case True
  with assms have "nat i < length xs" "x = xs ! nat i"
    by (auto simp: py_get_def split: if_splits)
  then show ?thesis by simp
next
  case False
  with assms have "nat (int (length xs) + i) < length xs" "x = xs ! nat (int (length xs) + i)"
    by (auto simp: py_get_def split: if_splits)
  then show ?thesis by simp
qed

lemma default_word_length_index:
  assumes "py_get [16, 14, 12, 10, 8 :: int] i = Inr word_len"
  shows "py_get [16, 14, 12, 10, 8 :: int] word_len = Inl IndexError"
proof -
  from py_get_member [OF assms] have "word_len \<in> {16, 14, 12, 10, 8}" by simp
  then show ?thesis by (auto simp: py_get_def)
qed

lemma randomised_member_default:
  assumes wl: "word_lengths cfg = [16, 14, 12, 10, 8]"
    and L: "L mod 4 = 0"
    and r: "0 \<le> word_draw R k" "word_draw R k \<le> int (length (word_lengths cfg)) - 1"
  shows "randomised_member cfg E R X y L win_inc k = Inl IndexError"
proof -
  from r wl obtain word_len where g: "py_get [16, 14, 12, 10, 8 :: int] (word_draw R k) = Inr word_len"
    by (auto simp: py_get_def)
  from default_word_length_index [OF g] g L show ?thesis
    by (simp add: randomised_member_def wl Let_def)
qed

text \<open>
  C9. With the default list of word lengths \<open>[16, 14, 12, 10, 8]\<close>, a series length that is
  a positive multiple of 4 and fewer members than \<^verbatim>\<open>ensemble_size\<close> before the call, the
  randomised mode of \<^verbatim>\<open>fit\<close> raises IndexError in its first iteration, whatever in-range
  index \<^verbatim>\<open>random.randint\<close> draws: the word length drawn from the list is used as an index
  into the same list.
\<close>

theorem randomised_fit_index_error:
  assumes "randomised_ensemble cfg"
    and "word_lengths cfg = [16, 14, 12, 10, 8]"
    and "int (length cs) < ensemble_size cfg"
    and "0 < snd (shape X)" and "snd (shape X) mod 4 = 0"
    and "0 \<le> word_draw R 0" and "word_draw R 0 \<le> int (length (word_lengths cfg)) - 1"
  shows "fit cfg E R cs X y = Inl IndexError"
proof -
  from window_increment_value [OF assms(4)] obtain win_inc where
    w: "window_increment cfg (snd (shape X)) = Inr win_inc" by blast
  have m: "randomised_member cfg E R X y (snd (shape X)) win_inc 0 = Inl IndexError"
    by (rule randomised_member_default [OF assms(2) assms(5) assms(6) assms(7)])
  have "randomised_loop cfg E R X y (snd (shape X)) win_inc 0 cs = Inl IndexError"
    using assms(3) by (simp add: randomised_loop.simps [of cfg E R X y "snd (shape X)" win_inc 0 cs] m)
  with w assms(1) show ?thesis by (auto simp: fit_def Let_def split: prod.splits)
qed

section \<open>Evaluation on the concrete inputs\<close>

lemma float_max_gt: "x \<le> 9007199254740991 \<Longrightarrow> x < float_max"
proof -
  assume "x \<le> 9007199254740991"
  moreover have "(9007199254740991::real) < (2 ^ 53 - 1) * 2 ^ 971" by simp
  ultimately show ?thesis unfolding float_max_def by linarith
qed

lemma td0_bounds: "0 \<le> td0 a b" "td0 a b < float_max"
proof -
  show "0 \<le> td0 a b" by (simp add: td0_def)
  have "td0 a b \<le> 100" by (simp add: td0_def)
  then show "td0 a b < float_max" by (intro float_max_gt) simp
qed

lemma d0_contract: "distance_contract d0 td0"
proof -
  have "cutoff \<le> float_max" if "cutoff < td0 a b" for cutoff a b
    using that td0_bounds(2) [of a b] by linarith
  then show ?thesis
    unfolding distance_contract_def d0_def using td0_bounds by auto
qed

lemma boss0_fields:
  "transformed_data boss0 = [0, 1, 5, 20]" "class_vals boss0 = [0, 0, 1, 1]"
  by (simp_all add: boss0_def fit_individual_def BOSSIndividual_def E0_def y0_def)

text \<open>The theorem of C4 on two members of accuracy 3/4 and 1.\<close>

theorem worst_of_best_sentinel_witness:
  "0 \<le> accuracy (boss0\<lparr>accuracy := 3 / 4\<rparr>) \<and> 0 \<le> accuracy (boss0\<lparr>accuracy := 1\<rparr>)
   \<and> worst_of_best [boss0\<lparr>accuracy := 3 / 4\<rparr>, boss0\<lparr>accuracy := 1\<rparr>] = (- 1, 0)"
proof -
  have h: "\<forall>m \<in> set [boss0\<lparr>accuracy := 3 / 4\<rparr>, boss0\<lparr>accuracy := 1\<rparr>]. 0 \<le> accuracy m"
    by simp
  from worst_of_best_sentinel [OF h] show ?thesis by simp
qed

text \<open>The theorem of C5 on the fitted member \<open>boss0\<close> and two test series.\<close>

theorem predict_nearest_neighbour_witness:
  "distance_contract (boss_distance E0) td0
   \<and> transformed_data boss0 \<noteq> []
   \<and> length (class_vals boss0) = length (transformed_data boss0)
   \<and> class_vals boss0 = [0, 0, 1, 1] \<and> fits_int64 0 \<and> fits_int64 1
   \<and> length (sfa_transform E0 boss0 [[0, 0, 0], [0, 0, 0, 0, 0, 0, 0]])
       = length [[0, 0, 0], [0, 0, 0, 0, 0, 0, 0 :: real]]
   \<and> (\<exists>classes. predict E0 boss0 [[0, 0, 0], [0, 0, 0, 0, 0, 0, 0]] = Inr classes
           \<and> length classes = length [[0, 0, 0], [0, 0, 0, 0, 0, 0, 0 :: real]]
           \<and> (\<forall>i \<in> set [0..<length [[0, 0, 0], [0, 0, 0, 0, 0, 0, 0 :: real]]].
                 \<exists>k. nearest_first td0 (sfa_transform E0 boss0 [[0, 0, 0], [0, 0, 0, 0, 0, 0, 0]] ! i)
                        (transformed_data boss0) k
                    \<and> classes ! i = class_vals boss0 ! k)
           \<and> predict (E0\<lparr>boss_distance := (\<lambda>a b cutoff. td0 a b)\<rparr>) boss0
                 [[0, 0, 0], [0, 0, 0, 0, 0, 0, 0]] = Inr classes)"
proof -
  have h1: "distance_contract (boss_distance E0) td0" using d0_contract by (simp add: E0_def)
  have h2: "transformed_data boss0 \<noteq> []" by (simp add: boss0_fields)
  have h3: "length (class_vals boss0) = length (transformed_data boss0)" by (simp add: boss0_fields)
  have f: "fits_int64 0" "fits_int64 1" by (simp_all add: fits_int64_def)
  then have h4: "\<forall>c \<in> set (class_vals boss0). fits_int64 c" by (simp add: boss0_fields)
  have h5: "length (sfa_transform E0 boss0 [[0, 0, 0], [0, 0, 0, 0, 0, 0, 0]])
            = length [[0, 0, 0], [0, 0, 0, 0, 0, 0, 0 :: real]]" by (simp add: E0_def)
  from predict_nearest_neighbour [OF h1 h2 h3 h4 h5] h1 h2 h3 f h5 boss0_fields(2)
  show ?thesis by blast
qed

text \<open>
  A label outside the 64-bit range: the nearest training bag to the test bag 20 is the
  last one, whose label is \<open>2^63\<close>, and storing it raises OverflowError.
\<close>

lemma boss_big_fields:
  "transformed_data boss_big = [0, 1, 5, 20]"
  "class_vals boss_big = [0, 0, 1, 9223372036854775808]"
  by (simp_all add: boss_big_def fit_individual_def BOSSIndividual_def E0_def y_big_def)

theorem predict_label_overflow:
  "distance_contract (boss_distance E0) td0
   \<and> transformed_data boss_big \<noteq> []
   \<and> length (class_vals boss_big) = length (transformed_data boss_big)
   \<and> length (sfa_transform E0 boss_big X20) = length X20
   \<and> predict E0 boss_big X20 = Inl OverflowError"
proof -
  have h1: "distance_contract (boss_distance E0) td0" using d0_contract by (simp add: E0_def)
  have e: "enumerate 0 [0, 1, 5, 20 :: nat] = [(0, 0), (Suc 0, 1), (2, 5), (3, 20)]"
    by (simp add: numeral_2_eq_2 numeral_3_eq_3)
  have "predict E0 boss_big X20 = Inl OverflowError"
    by (simp add: predict_def shape_def X20_def boss_big_fields e E0_def d0_def td0_def
          float_max_gt setitem_int64_def fits_int64_def)
  with h1 show ?thesis by (simp add: boss_big_fields E0_def X20_def)
qed

text \<open>The theorem of C6 on \<open>boss0\<close>, leaving out training instance 2.\<close>

theorem train_predict_returns_training_label_witness:
  "distance_contract (boss_distance E0) td0
   \<and> length (class_vals boss0) = length (transformed_data boss0)
   \<and> 2 < length (transformed_data boss0)
   \<and> (\<exists>n \<in> set [0..<length (transformed_data boss0)]. n \<noteq> 2)
   \<and> (\<exists>n \<in> set [0..<length (class_vals boss0)].
          n \<noteq> 2 \<and> train_predict E0 boss0 2 = Inr (class_vals boss0 ! n))"
proof -
  have h1: "distance_contract (boss_distance E0) td0" using d0_contract by (simp add: E0_def)
  have h2: "length (class_vals boss0) = length (transformed_data boss0)" by (simp add: boss0_fields)
  have h3: "2 < length (transformed_data boss0)" by (simp add: boss0_fields)
  have h4: "\<exists>n \<in> set [0..<length (transformed_data boss0)]. n \<noteq> 2" by (simp add: boss0_fields)
  from train_predict_returns_training_label [OF h1 h2 h3 h4] h1 h2 h3 h4 show ?thesis by blast
qed

text \<open>
  A training set of one instance: leaving that instance out, the loop skips the only bag
  and \<^verbatim>\<open>train_predict\<close> returns \<open>-1\<close>, which is no training label, although the
  training set is not empty.
\<close>

theorem train_predict_single_instance:
  "transformed_data boss_single \<noteq> []
   \<and> length (class_vals boss_single) = length (transformed_data boss_single)
   \<and> distance_contract (boss_distance E0) td0
   \<and> train_predict E0 boss_single 0 = Inr (- 1)
   \<and> - 1 \<notin> set (class_vals boss_single)"
proof -
  have h1: "distance_contract (boss_distance E0) td0" using d0_contract by (simp add: E0_def)
  then show ?thesis by (simp add: boss_single_def BOSSIndividual_def train_predict_def)
qed

text \<open>Leave-one-out accuracy of the concrete members, and the grid cell built on them.\<close>

lemma float_max_above: "x \<le> 9007199254740991 \<Longrightarrow> \<not> float_max < x" "x \<le> 9007199254740991 \<Longrightarrow> \<not> float_max \<le> x"
  using float_max_gt [of x] by simp_all

lemma enumerate4: "enumerate 0 [a, b, c, d] = [(0, a), (Suc 0, b), (2, c), (3, d)]"
  by (simp add: numeral_2_eq_2 numeral_3_eq_3)

lemma upt4: "[0..<4] = [0, Suc 0, 2, 3]"
  by (simp add: upt_rec numeral_2_eq_2 numeral_3_eq_3)

lemma train_predict_A:
  assumes "transformed_data boss = [0, 1, 5, 20]" and "class_vals boss = [0, 0, 1, 1]"
  shows "train_predict E0 boss 0 = Inr 0" "train_predict E0 boss (Suc 0) = Inr 0"
    "train_predict E0 boss 2 = Inr 0" "train_predict E0 boss 3 = Inr 1"
  using assms
  by (simp_all add: train_predict_def E0_def enumerate4 d0_def td0_def float_max_gt float_max_above)

lemma train_predict_B:
  assumes "transformed_data boss = [0, 1, 10, 11]" and "class_vals boss = [0, 0, 1, 1]"
  shows "train_predict E0 boss 0 = Inr 0" "train_predict E0 boss (Suc 0) = Inr 0"
    "train_predict E0 boss 2 = Inr 1" "train_predict E0 boss 3 = Inr 1"
  using assms
  by (simp_all add: train_predict_def E0_def enumerate4 d0_def td0_def float_max_gt float_max_above)

lemma loo_accuracy_A:
  assumes "transformed_data boss = [0, 1, 5, 20]" and "class_vals boss = [0, 0, 1, 1]"
  shows "loo_accuracy E0 boss y0 4 = Inr (3 / 4)"
  by (simp add: loo_accuracy_def upt4 train_predict_A [OF assms] y0_def)

lemma loo_accuracy_B:
  assumes "transformed_data boss = [0, 1, 10, 11]" and "class_vals boss = [0, 0, 1, 1]"
  shows "loo_accuracy E0 boss y0 4 = Inr 1"
  by (simp add: loo_accuracy_def upt4 train_predict_B [OF assms] y0_def)

lemma member0_fields:
  "transformed_data (member0 True w) = [0, 1, 5, 20]"
  "transformed_data (member0 False w) = [0, 1, 10, 11]"
  "class_vals (member0 n w) = [0, 0, 1, 1]"
  by (simp_all add: member0_def fit_individual_def BOSSIndividual_def E0_def y0_def)

lemma loo_accuracy_member0: "loo_accuracy E0 (member0 n w) y0 4 = Inr (acc0 n)"
  by (cases n) (simp_all add: acc0_def loo_accuracy_A loo_accuracy_B member0_fields)

lemma grid_cell0:
  assumes "word_lengths cfg = [2]" and "alphabet_size_cfg cfg = 4"
  shows "grid_cell cfg E0 X0 y0 4 n w st = retain cfg st (acc0 n) (member0 n w) 2"
proof -
  have "- 1 \<le> acc0 n" by (simp add: acc0_def)
  then show ?thesis
    by (simp add: grid_cell_def assms member0_def [symmetric] loo_accuracy_member0)
qed


lemma cfg0_fields:
  "word_lengths cfg0 = [2]" "alphabet_size_cfg cfg0 = 4" "threshold cfg0 = 0.92"
  "max_ensemble_size cfg0 = 250" "min_window cfg0 = 3" "norm_options cfg0 = [True, False]"
  "\<not> randomised_ensemble cfg0"
  by (simp_all add: cfg0_def default_config_def)

lemma shape_X0: "shape X0 = (4, 4)"
  by (simp add: shape_def X0_def)

lemma window_increment0: "min_window cfg = 3 \<Longrightarrow> window_increment cfg 4 = Inr 1"
  by (simp add: window_increment_def py_int_def)

lemma window_grid0: "min_window cfg = 3 \<Longrightarrow> window_grid cfg 4 1 = [3, 4]"
  by (simp add: window_grid_def py_range_def upt_rec)

text \<open>The equations that evaluate one retention step on an explicit state.\<close>

lemmas retain_eval =
  retain_def include_in_ensemble_def worst_of_best_def del_at_def evict_scan.simps Let_def
  acc0_def cand0_def

lemma search0:
  "norm_loop cfg0 E0 X0 y0 4 [3, 4] [True, False] \<lparr>members = [], max_acc = - 1, min_max_acc = - 1\<rparr>
   = Inr \<lparr>members = [cand0 True 4, cand0 False 3, cand0 False 4], max_acc = 1, min_max_acc = - 1\<rparr>"
  by (simp add: grid_cell0 cfg0_fields retain_eval)


lemma cfg1_fields:
  "word_lengths cfg1 = [2]" "alphabet_size_cfg cfg1 = 4" "threshold cfg1 = 0.92"
  "max_ensemble_size cfg1 = 1" "min_window cfg1 = 3" "norm_options cfg1 = [True, False]"
  "\<not> randomised_ensemble cfg1"
  by (simp_all add: cfg1_def cfg0_def default_config_def)

lemma cfg2_fields:
  "word_lengths cfg2 = [2]" "alphabet_size_cfg cfg2 = 4" "threshold cfg2 = 0.7"
  "max_ensemble_size cfg2 = 2" "min_window cfg2 = 3" "norm_options cfg2 = [False, True]"
  "\<not> randomised_ensemble cfg2"
  by (simp_all add: cfg2_def cfg0_def default_config_def)

lemma cfg3_fields:
  "word_lengths cfg3 = [2, 4, 2, 4, 2]" "alphabet_size_cfg cfg3 = 4"
  "max_ensemble_size cfg3 = 2" "min_window cfg3 = 10" "ensemble_size cfg3 = 3"
  "randomised_ensemble cfg3"
  by (simp_all add: cfg3_def default_config_def)

lemma labels_y0: "sort (remdups y0) = [0, 1]"
  by (simp add: y0_def)

lemma grid_search0:
  "grid_search cfg0 E0 X0 y0 4 4 1 []
   = Inr [cand0 True 4, cand0 False 3, cand0 False 4]"
  by (simp add: grid_search_def window_grid0 cfg0_fields search0 del: norm_loop.simps)

lemma fit0:
  "fit cfg0 E0 R [] X0 y0
   = Inr \<lparr>classifiers = [cand0 True 4, cand0 False 3, cand0 False 4], num_classes = 2,
          classes = [0, 1], class_dictionary = [(0, 0), (1, 1)], num_classifiers = 3,
          series_length = 4\<rparr>"
  by (simp add: fit_def shape_X0 window_increment0 grid_search0 cfg0_fields labels_y0 upt_rec
        Let_def)

text \<open>
  C1, evaluated. With the default threshold 0.92 the four grid cells of the concrete training
  set have the best leave-one-out accuracies 3/4, 3/4, 1, 1. When the third cell raises the
  best accuracy to 1, the eviction loop removes the first member and, the list having
  shifted under its iterator, never looks at the second: \<^verbatim>\<open>fit\<close> returns with a member of
  accuracy 3/4, which is below \<open>1 * 0.92\<close>.
\<close>

theorem fit_keeps_member_below_threshold:
  "\<exists>ens. fit cfg0 E0 R0 [] X0 y0 = Inr ens
         \<and> classifiers ens = [cand0 True 4, cand0 False 3, cand0 False 4]
         \<and> map accuracy (classifiers ens) = [3 / 4, 1, 1]
         \<and> accuracy (classifiers ens ! 0) < Max (set (map accuracy (classifiers ens))) * threshold cfg0"
  by (simp add: fit0 cand0_def acc0_def cfg0_fields)

text \<open>
  C2, evaluated. With \<^verbatim>\<open>max_ensemble_size = 1\<close> the first cell leaves one member of
  accuracy 3/4 and \<^verbatim>\<open>min_max_acc = -1\<close>. The candidate of the second cell has accuracy
  3/4 as well: the ensemble is full and the candidate does not beat the lowest retained
  accuracy, so the rule of the specification does not retain it; the code passes
  \<^verbatim>\<open>min_max_acc = -1\<close>, retains it and deletes the earlier member.
\<close>

theorem include_ignores_lowest_retained:
  "grid_cell cfg1 E0 X0 y0 4 True 3 \<lparr>members = [], max_acc = - 1, min_max_acc = - 1\<rparr>
     = Inr \<lparr>members = [cand0 True 3], max_acc = 3 / 4, min_max_acc = - 1\<rparr>
   \<and> lowest_retained [cand0 True 3] = 3 / 4
   \<and> \<not> retained_by_spec cfg1 [cand0 True 3] (acc0 True)
   \<and> include_in_ensemble cfg1 (acc0 True) (3 / 4) (- 1) (int (length [cand0 True 3]))
   \<and> grid_cell cfg1 E0 X0 y0 4 True 4 \<lparr>members = [cand0 True 3], max_acc = 3 / 4, min_max_acc = - 1\<rparr>
     = Inr \<lparr>members = [cand0 True 4], max_acc = 3 / 4, min_max_acc = - 1\<rparr>"
  by (simp add: grid_cell0 cfg1_fields retain_eval retained_by_spec_def lowest_retained_def
        best_retained_def)

text \<open>
  C3, evaluated. With \<^verbatim>\<open>max_ensemble_size = 2\<close>, threshold 0.7 and the normalisation
  options in the order \<open>[False, True]\<close>, the first two cells leave two members of accuracy
  1. The candidate of the third cell has accuracy 3/4; after it is appended the list holds
  three members, and the one deleted is the member at index 0, of accuracy 1, not the
  member of lowest accuracy. \<^verbatim>\<open>fit\<close> ends with the two members of accuracy 3/4.
\<close>

theorem eviction_deletes_first_member:
  "window_loop cfg2 E0 X0 y0 4 False [3, 4] \<lparr>members = [], max_acc = - 1, min_max_acc = - 1\<rparr>
     = Inr \<lparr>members = [cand0 False 3, cand0 False 4], max_acc = 1, min_max_acc = - 1\<rparr>
   \<and> grid_cell cfg2 E0 X0 y0 4 True 3
         \<lparr>members = [cand0 False 3, cand0 False 4], max_acc = 1, min_max_acc = - 1\<rparr>
     = Inr \<lparr>members = [cand0 False 4, cand0 True 3], max_acc = 1, min_max_acc = - 1\<rparr>
   \<and> map accuracy [cand0 False 3, cand0 False 4, cand0 True 3] = [1, 1, 3 / 4]
   \<and> (\<exists>ens. fit cfg2 E0 R0 [] X0 y0 = Inr ens
          \<and> classifiers ens = [cand0 True 3, cand0 True 4])"
  by (simp add: fit_def shape_X0 window_increment0 window_grid0 grid_search_def
        grid_cell0 cfg2_fields retain_eval)

text \<open>The theorem of C7 at the default configuration and series length 40.\<close>

theorem window_grid_candidates_witness:
  "(0::nat) < 40
   \<and> (\<exists>win_inc. window_increment default_config 40 = Inr win_inc
           \<and> win_inc = max 1 \<lfloor>real_of_int (int 40 - min_window default_config) / (real 40 / 4)\<rfloor>
           \<and> set (window_grid default_config 40 win_inc)
               = {w. \<exists>k::nat. w = min_window default_config + int k * win_inc \<and> w \<le> int 40}
           \<and> sorted_wrt (<) (window_grid default_config 40 win_inc)
           \<and> (int 40 \<in> set (window_grid default_config 40 win_inc)
                \<longleftrightarrow> min_window default_config \<le> int 40
                    \<and> win_inc dvd (int 40 - min_window default_config)))
   \<and> window_increment default_config 40 = Inr 3
   \<and> window_grid default_config 40 3 = [10, 13, 16, 19, 22, 25, 28, 31, 34, 37, 40]"
proof -
  have h: "(0::nat) < 40" by simp
  have "window_increment default_config 40 = Inr 3"
    by (simp add: window_increment_def default_config_def py_int_def)
  moreover have "window_grid default_config 40 3 = [10, 13, 16, 19, 22, 25, 28, 31, 34, 37, 40]"
    by (simp add: window_grid_def default_config_def py_range_def upt_rec)
  ultimately show ?thesis using window_grid_candidates [OF h, of default_config] h by blast
qed

text \<open>
  At the default configuration and series length 41 the step is 3 and the last window
  length is 40: the series length is not a candidate.
\<close>

theorem series_length_not_a_candidate:
  "window_increment default_config 41 = Inr 3
   \<and> window_grid default_config 41 3 = [10, 13, 16, 19, 22, 25, 28, 31, 34, 37, 40]
   \<and> int 41 \<notin> set (window_grid default_config 41 3)"
proof -
  have "window_grid default_config 41 3 = [10, 13, 16, 19, 22, 25, 28, 31, 34, 37, 40]"
    by (simp add: window_grid_def default_config_def py_range_def upt_rec)
  moreover have "window_increment default_config 41 = Inr 3"
    by (simp add: window_increment_def default_config_def py_int_def)
  ultimately show ?thesis by simp
qed

text \<open>
  The randomised mode with \<^verbatim>\<open>ensemble_size = 3\<close>, \<^verbatim>\<open>max_ensemble_size = 2\<close> and a list
  of word lengths whose elements are valid indices into it: \<^verbatim>\<open>fit\<close> returns three members.
\<close>

lemma window_increment3: "window_increment cfg3 4 = Inr 1"
  by (simp add: window_increment_def py_int_def cfg3_fields)

lemma randomised_member3:
  "randomised_member cfg3 E0 R0 X0 y0 4 1 k
   = Inr (fit_individual E0 (BOSSIndividual 1 2 4 False) X0 y0)"
  by (simp add: randomised_member_def cfg3_fields R0_def py_get_def clean_def)

lemma fit3:
  "fit cfg3 E0 R0 [] X0 y0
   = Inr \<lparr>classifiers = [fit_individual E0 (BOSSIndividual 1 2 4 False) X0 y0,
                          fit_individual E0 (BOSSIndividual 1 2 4 False) X0 y0,
                          fit_individual E0 (BOSSIndividual 1 2 4 False) X0 y0],
          num_classes = 2, classes = [0, 1], class_dictionary = [(0, 0), (1, 1)],
          num_classifiers = 3, series_length = 4\<rparr>"
  by (simp add: fit_def shape_X0 window_increment3 cfg3_fields randomised_loop.simps
        randomised_member3 labels_y0 upt_rec Let_def)

theorem randomised_fit_exceeds_max_ensemble_size:
  "randomised_ensemble cfg3 \<and> max_ensemble_size cfg3 = 2
   \<and> (\<exists>ens. fit cfg3 E0 R0 [] X0 y0 = Inr ens \<and> length (classifiers ens) = 3
          \<and> num_classifiers ens = 3)"
  by (simp add: fit3 cfg3_fields)

text \<open>The theorem of C8 on a grid-search call and on a randomised call.\<close>

theorem fit_size_bound_witness:
  "(\<exists>ens. fit cfg0 E0 R0 [] X0 y0 = Inr ens \<and> \<not> randomised_ensemble cfg0
          \<and> int (length ([] :: nat boss_individual list)) \<le> max_ensemble_size cfg0
          \<and> int (length (classifiers ens)) \<le> max_ensemble_size cfg0
          \<and> num_classifiers ens = length (classifiers ens))
   \<and> (\<exists>ens. fit cfg3 E0 R0 [] X0 y0 = Inr ens \<and> randomised_ensemble cfg3
          \<and> int (length (classifiers ens))
              = max (int (length ([] :: nat boss_individual list))) (ensemble_size cfg3)
          \<and> num_classifiers ens = length (classifiers ens))"
proof -
  obtain ens where e: "fit cfg0 E0 R0 [] X0 y0 = Inr ens" using fit0 by blast
  obtain ens3 where e3: "fit cfg3 E0 R0 [] X0 y0 = Inr ens3" using fit3 by blast
  have g: "\<not> randomised_ensemble cfg0" "int (length ([] :: nat boss_individual list)) \<le> max_ensemble_size cfg0"
    by (simp_all add: cfg0_fields)
  have r: "randomised_ensemble cfg3" by (simp add: cfg3_fields)
  from fit_size_bound [OF e] g have
    "int (length (classifiers ens)) \<le> max_ensemble_size cfg0 \<and> num_classifiers ens = length (classifiers ens)"
    by simp
  moreover from fit_size_bound [OF e3] r have
    "int (length (classifiers ens3))
       = max (int (length ([] :: nat boss_individual list))) (ensemble_size cfg3)
     \<and> num_classifiers ens3 = length (classifiers ens3)"
    by simp
  ultimately show ?thesis using e e3 g r by blast
qed

text \<open>
  The theorem of C9 at the default configuration with \<^verbatim>\<open>randomised_ensemble=True\<close>, on two
  series of length 40.
\<close>

lemma shape_X40: "shape X40 = (2, 40)"
  by (simp add: shape_def X40_def)

theorem randomised_fit_index_error_witness:
  "randomised_ensemble (default_config\<lparr>randomised_ensemble := True\<rparr>)
   \<and> word_lengths (default_config\<lparr>randomised_ensemble := True\<rparr>) = [16, 14, 12, 10, 8]
   \<and> int (length ([] :: nat boss_individual list))
       < ensemble_size (default_config\<lparr>randomised_ensemble := True\<rparr>)
   \<and> 0 < snd (shape X40) \<and> snd (shape X40) mod 4 = 0
   \<and> 0 \<le> word_draw R0 0
   \<and> word_draw R0 0 \<le> int (length (word_lengths (default_config\<lparr>randomised_ensemble := True\<rparr>))) - 1
   \<and> fit (default_config\<lparr>randomised_ensemble := True\<rparr>) E0 R0 [] X40 [0, 1] = Inl IndexError"
proof -
  let ?cfg = "default_config\<lparr>randomised_ensemble := True\<rparr>"
  have h1: "randomised_ensemble ?cfg" by simp
  have h2: "word_lengths ?cfg = [16, 14, 12, 10, 8]" by (simp add: default_config_def)
  have h3: "int (length ([] :: nat boss_individual list)) < ensemble_size ?cfg"
    by (simp add: default_config_def)
  have h4: "0 < snd (shape X40)" by (simp add: shape_X40)
  have h5: "snd (shape X40) mod 4 = 0" by (simp add: shape_X40)
  have h6: "0 \<le> word_draw R0 0" by (simp add: R0_def)
  have h7: "word_draw R0 0 \<le> int (length (word_lengths ?cfg)) - 1"
    by (simp add: R0_def default_config_def)
  from randomised_fit_index_error [OF h1 h2 h3 h4 h5 h6 h7, of E0 "[0, 1]"]
    h1 h2 h3 h4 h5 h6 h7 show ?thesis by blast
qed

lemma E0_shapes:
  "length (sfa_fit_transform E0 w wl a nrm X0) = length X0"
  "length (sfa_shorten_bags E0 self wl) = length X0"
  by (simp_all add: E0_def X0_def)

text \<open>
  Labels of a single class: \<^verbatim>\<open>fit\<close> raises nothing and returns an ensemble with
  \<^verbatim>\<open>num_classes = 1\<close>.
\<close>

theorem fit_accepts_single_class:
  "card (set y1) = 1
   \<and> (\<exists>ens. fit cfg0 E0 R0 [] X0 y1 = Inr ens \<and> num_classes ens = 1 \<and> classes ens = [0])"
proof -
  have "\<exists>cs'. grid_search cfg0 E0 X0 y1 4 4 1 [] = Inr cs'"
    by (rule grid_search_returns) (simp_all add: cfg0_fields y1_def E0_def)
  then obtain cs' where "grid_search cfg0 E0 X0 y1 4 4 1 [] = Inr cs'" by blast
  then have "\<exists>ens. fit cfg0 E0 R0 [] X0 y1 = Inr ens \<and> num_classes ens = 1 \<and> classes ens = [0]"
    by (simp add: fit_def shape_X0 window_increment0 cfg0_fields y1_def Let_def)
  then show ?thesis by (simp add: y1_def)
qed

text \<open>The theorem of C10 on the same labels.\<close>

theorem fit_without_class_check_witness:
  "\<not> randomised_ensemble cfg0 \<and> word_lengths cfg0 \<noteq> []
   \<and> int (length ([] :: nat boss_individual list)) \<le> max_ensemble_size cfg0
   \<and> X0 \<noteq> [] \<and> hd X0 \<noteq> [] \<and> length y1 = length X0
   \<and> (\<forall>w wl a nrm. length (sfa_fit_transform E0 w wl a nrm X0) = length X0)
   \<and> (\<forall>self wl. length (sfa_shorten_bags E0 self wl) = length X0)
   \<and> (\<exists>ens. fit cfg0 E0 R0 [] X0 y1 = Inr ens \<and> num_classes ens = card (set y1))
   \<and> card (set y1) < 2"
proof -
  have h1: "\<not> randomised_ensemble cfg0" by (simp add: cfg0_fields)
  have h2: "word_lengths cfg0 \<noteq> []" by (simp add: cfg0_fields)
  have h3: "int (length ([] :: nat boss_individual list)) \<le> max_ensemble_size cfg0"
    by (simp add: cfg0_fields)
  have h4: "X0 \<noteq> []" by (simp add: X0_def)
  have h5: "hd X0 \<noteq> []" by (simp add: X0_def)
  have h6: "length y1 = length X0" by (simp add: X0_def y1_def)
  have c: "card (set y1) < 2" by (simp add: y1_def)
  from fit_without_class_check [OF h1 h2 h3 h4 h5 h6 E0_shapes, of R0]
    h1 h2 h3 h4 h5 h6 c E0_shapes show ?thesis by blast
qed

end
